theory Spec2Isabelle
  imports Main "HOL-Library.Product_Lexorder" "HOL-Library.Multiset"
begin

section \<open>Task queue (core/task-queue.ts)\<close>

text \<open>
  The \<^verbatim>\<open>Task\<close> interface of the task queue. JavaScript numbers that hold counters,
  priorities and millisecond timestamps are integers; optional fields are options;
  the opaque \<^verbatim>\<open>payload\<close> and \<^verbatim>\<open>result\<close> values are strings.
\<close>

datatype task_status = Pending | In_progress | Completed | Failed

record task =
  t_id :: string
  t_type :: string
  t_description :: string
  t_priority :: int
  t_payload :: string
  t_status :: task_status
  t_createdAt :: int
  t_startedAt :: "int option"
  t_completedAt :: "int option"
  t_result :: "string option"
  t_error :: "string option"
  t_retryCount :: int
  t_maxRetries :: "int"
  t_dependencies :: "string list option"

text \<open>
  The argument of \<^verbatim>\<open>enqueue\<close>: \<^verbatim>\<open>Omit<Task, "id" | "status" | "createdAt" | "retryCount">\<close>.
  The caller in \<^verbatim>\<open>handleCommand\<close> leaves \<^verbatim>\<open>maxRetries\<close> out, so the field is an option here.
\<close>

record task_data =
  d_type :: string
  d_description :: string
  d_priority :: int
  d_payload :: string
  d_startedAt :: "int option"
  d_completedAt :: "int option"
  d_result :: "string option"
  d_error :: "string option"
  d_maxRetries :: "int option"
  d_dependencies :: "string list option"

text \<open>One row of the SQL table \<^verbatim>\<open>cf_agents_queues\<close>; the payload column holds the task.\<close>

record row =
  r_id :: string
  r_type :: string
  r_priority :: int
  r_payload :: task
  r_status :: task_status
  r_created_at :: int

text \<open>The entry written by \<^verbatim>\<open>moveToDLQ\<close> under the key \<^verbatim>\<open>dlq:<task id>\<close>.\<close>

record dlq_entry =
  e_taskId :: string
  e_task :: task
  e_error :: string
  e_timestamp :: int

text \<open>
  The durable object's storage: the queue table in insertion order and the key-value store.
\<close>

record storage =
  cf_agents_queues :: "row list"
  kv :: "string \<rightharpoonup> dlq_entry"

datatype error =
    TaskNotFound string
  | PrimaryKeyViolation string
  | AtCapacity
  | Thrown string

fun message :: "error \<Rightarrow> string" where
  "message (TaskNotFound i) = ''Task not found: '' @ i"
| "message (PrimaryKeyViolation i) = ''UNIQUE constraint failed: cf_agents_queues.id''"
| "message AtCapacity = ''No available subagents and at capacity''"
| "message (Thrown m) = m"

text \<open>JavaScript truthiness of an optional number: \<^verbatim>\<open>undefined\<close> and \<^verbatim>\<open>0\<close> are falsy.\<close>

fun falsy :: "int option \<Rightarrow> bool" where
  "falsy None = True"
| "falsy (Some n) = (n = 0)"

text \<open>\<^verbatim>\<open>x || d\<close> on an optional number.\<close>

definition or_default :: "int option \<Rightarrow> int \<Rightarrow> int" where
  "or_default x d = (if falsy x then d else the x)"

text \<open>
  \<^verbatim>\<open>enqueue\<close>. The id produced by \<^verbatim>\<open>nanoid()\<close> and the clock value read by
  \<^verbatim>\<open>Date.now()\<close> are parameters. The column \<^verbatim>\<open>id\<close> is the table's primary key, so
  the \<^verbatim>\<open>INSERT\<close> throws when the id is already present.
\<close>

definition new_task :: "string \<Rightarrow> int \<Rightarrow> task_data \<Rightarrow> task" where
  "new_task nid now taskData =
     \<lparr> t_id = nid,
       t_type = d_type taskData,
       t_description = d_description taskData,
       t_priority = d_priority taskData,
       t_payload = d_payload taskData,
       t_status = Pending,
       t_createdAt = now,
       t_startedAt = d_startedAt taskData,
       t_completedAt = d_completedAt taskData,
       t_result = d_result taskData,
       t_error = d_error taskData,
       t_retryCount = 0,
       t_maxRetries = or_default (d_maxRetries taskData) 3,
       t_dependencies = d_dependencies taskData \<rparr>"

definition row_of :: "task \<Rightarrow> row" where
  "row_of tk =
     \<lparr> r_id = t_id tk, r_type = t_type tk, r_priority = t_priority tk,
       r_payload = tk, r_status = t_status tk, r_created_at = t_createdAt tk \<rparr>"

definition enqueue :: "storage \<Rightarrow> string \<Rightarrow> int \<Rightarrow> task_data \<Rightarrow> error + (task \<times> storage)" where
  "enqueue st nid now taskData =
     (let tk = new_task nid now taskData in
      if \<exists>r \<in> set (cf_agents_queues st). r_id r = t_id tk
      then Inl (PrimaryKeyViolation (t_id tk))
      else Inr (tk, st\<lparr>cf_agents_queues := cf_agents_queues st @ [row_of tk]\<rparr>))"

text \<open>
  \<^verbatim>\<open>getPending\<close>: \<^verbatim>\<open>WHERE status = 'pending' ORDER BY priority DESC, created_at ASC LIMIT ?\<close>.
  The sort is by the lexicographic key (\<open>- priority\<close>, \<open>created_at\<close>); rows with equal keys
  stay in insertion (rowid) order. The limit is a row count.
\<close>

definition order_key :: "row \<Rightarrow> int \<times> int" where
  "order_key r = (- r_priority r, r_created_at r)"

definition getPending :: "storage \<Rightarrow> nat \<Rightarrow> task list" where
  "getPending st limit =
     map r_payload
       (take limit (sort_key order_key (filter (\<lambda>r. r_status r = Pending) (cf_agents_queues st))))"

text \<open>\<^verbatim>\<open>getTask\<close>: the payload of the row with the given id, or \<^verbatim>\<open>null\<close>.\<close>

definition getTask :: "storage \<Rightarrow> string \<Rightarrow> task option" where
  "getTask st i = map_option r_payload (find (\<lambda>r. r_id r = i) (cf_agents_queues st))"

text \<open>\<^verbatim>\<open>UPDATE cf_agents_queues SET payload = ?, status = ? WHERE id = ?\<close>.\<close>

definition sql_update :: "row list \<Rightarrow> string \<Rightarrow> task \<Rightarrow> task_status \<Rightarrow> row list" where
  "sql_update rows i tk s =
     map (\<lambda>r. if r_id r = i then r\<lparr>r_payload := tk, r_status := s\<rparr> else r) rows"

text \<open>
  The \<^verbatim>\<open>data\<close> argument of \<^verbatim>\<open>updateStatus\<close>. The two callers pass \<^verbatim>\<open>{ result }\<close> and
  \<^verbatim>\<open>{ error }\<close>; \<^verbatim>\<open>Object.assign\<close> copies the fields that are present.
\<close>

record patch =
  p_result :: "string option"
  p_error :: "string option"

definition assign :: "task \<Rightarrow> patch \<Rightarrow> task" where
  "assign tk p =
     (let tk1 = (case p_result p of None \<Rightarrow> tk | Some v \<Rightarrow> tk\<lparr>t_result := Some v\<rparr>)
      in (case p_error p of None \<Rightarrow> tk1 | Some v \<Rightarrow> tk1\<lparr>t_error := Some v\<rparr>))"

definition updateStatus ::
  "storage \<Rightarrow> int \<Rightarrow> string \<Rightarrow> task_status \<Rightarrow> patch option \<Rightarrow> error + storage" where
  "updateStatus st now i s data =
     (case getTask st i of
        None \<Rightarrow> Inl (TaskNotFound i)
      | Some tk0 \<Rightarrow>
          let tk1 = tk0\<lparr>t_status := s\<rparr>;
              tk2 = (if s = In_progress \<and> falsy (t_startedAt tk1)
                     then tk1\<lparr>t_startedAt := Some now\<rparr>
                     else if (s = Completed \<or> s = Failed) \<and> falsy (t_completedAt tk1)
                     then tk1\<lparr>t_completedAt := Some now\<rparr>
                     else tk1);
              tk3 = (case data of None \<Rightarrow> tk2 | Some p \<Rightarrow> assign tk2 p)
          in Inr (st\<lparr>cf_agents_queues := sql_update (cf_agents_queues st) i tk3 s\<rparr>))"

definition complete :: "storage \<Rightarrow> int \<Rightarrow> string \<Rightarrow> string \<Rightarrow> error + storage" where
  "complete st now i res = updateStatus st now i Completed (Some \<lparr>p_result = Some res, p_error = None\<rparr>)"

definition moveToDLQ :: "storage \<Rightarrow> int \<Rightarrow> task \<Rightarrow> string \<Rightarrow> storage" where
  "moveToDLQ st now tk err =
     st\<lparr>kv := (kv st)(''dlq:'' @ t_id tk \<mapsto>
        \<lparr>e_taskId = t_id tk, e_task = tk, e_error = err, e_timestamp = now\<rparr>)\<rparr>"

text \<open>
  \<^verbatim>\<open>fail\<close>. All reads of the clock inside one call give the same value \<open>now\<close>.
\<close>

definition fail :: "storage \<Rightarrow> int \<Rightarrow> string \<Rightarrow> string \<Rightarrow> error + storage" where
  "fail st now i err =
     (case getTask st i of
        None \<Rightarrow> Inr st
      | Some tk \<Rightarrow>
          if t_retryCount tk < t_maxRetries tk
          then
            let tk' = tk\<lparr>t_retryCount := t_retryCount tk + 1, t_status := Pending,
                          t_error := Some err\<rparr>
            in Inr (st\<lparr>cf_agents_queues := sql_update (cf_agents_queues st) i tk' Pending\<rparr>)
          else
            (case updateStatus st now i Failed (Some \<lparr>p_result = None, p_error = Some err\<rparr>) of
               Inl e \<Rightarrow> Inl e
             | Inr st' \<Rightarrow> Inr (moveToDLQ st' now tk err)))"

text \<open>\<^verbatim>\<open>areDependenciesSatisfied\<close>: the loop returns at the first unsatisfied dependency.\<close>

fun deps_loop :: "storage \<Rightarrow> string list \<Rightarrow> bool" where
  "deps_loop st [] = True"
| "deps_loop st (depId # rest) =
     (case getTask st depId of
        None \<Rightarrow> False
      | Some depTask \<Rightarrow> if t_status depTask \<noteq> Completed then False else deps_loop st rest)"

definition areDependenciesSatisfied :: "storage \<Rightarrow> task \<Rightarrow> bool" where
  "areDependenciesSatisfied st tk =
     (case t_dependencies tk of
        None \<Rightarrow> True
      | Some deps \<Rightarrow> if length deps = 0 then True else deps_loop st deps)"

text \<open>
  The state of the table that the queue's own operations maintain: the primary key \<^verbatim>\<open>id\<close> is
  unique, and the columns of every row agree with its payload. \<^verbatim>\<open>enqueue\<close> establishes
  this for the row it inserts and every update of the table keeps it.
\<close>

definition row_ok :: "row \<Rightarrow> bool" where
  "row_ok r = (r_id r = t_id (r_payload r) \<and> r_status r = t_status (r_payload r)
               \<and> r_priority r = t_priority (r_payload r)
               \<and> r_created_at r = t_createdAt (r_payload r))"

definition consistent :: "storage \<Rightarrow> bool" where
  "consistent st =
     (distinct (map r_id (cf_agents_queues st)) \<and> list_all row_ok (cf_agents_queues st))"

definition empty_storage :: storage where
  "empty_storage = \<lparr>cf_agents_queues = [], kv = Map.empty\<rparr>"

text \<open>
  \<^verbatim>\<open>cleanup\<close>: deletes the completed and failed rows created before the cutoff and
  returns the number of rows deleted.
\<close>

definition cleanup :: "storage \<Rightarrow> int \<Rightarrow> int \<Rightarrow> nat \<times> storage" where
  "cleanup st now daysToKeep =
     (let cutoff = now - (daysToKeep * 24 * 60 * 60 * 1000);
          kept = filter (\<lambda>r. \<not> ((r_status r = Completed \<or> r_status r = Failed)
                                  \<and> r_created_at r < cutoff)) (cf_agents_queues st)
      in (length (cf_agents_queues st) - length kept, st\<lparr>cf_agents_queues := kept\<rparr>))"

text \<open>
  Sequences of queue operations. An operation that throws has written nothing, so it
  leaves the storage as it was.
\<close>

datatype queue_op =
    Enqueue string int task_data
  | UpdateStatus int string task_status "patch option"
  | Complete int string string
  | Fail int string string
  | Cleanup int int

fun apply_op :: "storage \<Rightarrow> queue_op \<Rightarrow> storage" where
  "apply_op st (Enqueue nid now taskData) =
     (case enqueue st nid now taskData of Inl e \<Rightarrow> st | Inr (tk, st') \<Rightarrow> st')"
| "apply_op st (UpdateStatus now i s data) =
     (case updateStatus st now i s data of Inl e \<Rightarrow> st | Inr st' \<Rightarrow> st')"
| "apply_op st (Complete now i res) =
     (case complete st now i res of Inl e \<Rightarrow> st | Inr st' \<Rightarrow> st')"
| "apply_op st (Fail now i err) =
     (case fail st now i err of Inl e \<Rightarrow> st | Inr st' \<Rightarrow> st')"
| "apply_op st (Cleanup now daysToKeep) = snd (cleanup st now daysToKeep)"

definition run_ops :: "storage \<Rightarrow> queue_op list \<Rightarrow> storage" where
  "run_ops st ops = foldl apply_op st ops"



definition deps_of :: "task \<Rightarrow> string list" where
  "deps_of tk = (case t_dependencies tk of None \<Rightarrow> [] | Some ds \<Rightarrow> ds)"

section \<open>Subagent deployer (subagents/deployer.ts)\<close>

datatype subagent_type = Worker | Specialist | Integration | Monitor

datatype subagent_status = Active | Idle | Error

record subagent =
  s_id :: string
  s_type :: subagent_type
  s_name :: string
  s_status :: subagent_status
  s_currentTask :: "string option"
  s_deployedAt :: int
  s_lastHeartbeat :: int

record subagent_config =
  sc_type :: subagent_type
  sc_name :: string
  sc_domain :: "string option"
  sc_resources :: "(int \<times> int \<times> int) option"

text \<open>
  \<^verbatim>\<open>activeSubagents\<close> is a JavaScript \<^verbatim>\<open>Map\<close>: entries are kept in insertion order and the
  keys are distinct. \<^verbatim>\<open>Map.set\<close> replaces the value of a present key where it stands and
  appends an absent one.
\<close>

type_synonym pool = "(string \<times> subagent) list"

fun map_set :: "string \<Rightarrow> subagent \<Rightarrow> pool \<Rightarrow> pool" where
  "map_set k v [] = [(k, v)]"
| "map_set k v ((k', s) # rest) =
     (if k' = k then (k, v) # rest else (k', s) # map_set k v rest)"

fun map_get :: "pool \<Rightarrow> string \<Rightarrow> subagent option" where
  "map_get [] k = None"
| "map_get ((k', s) # rest) k = (if k' = k then Some s else map_get rest k)"

text \<open>Mutation of the object stored under a key, where the key is present.\<close>

fun modify :: "string \<Rightarrow> (subagent \<Rightarrow> subagent) \<Rightarrow> pool \<Rightarrow> pool" where
  "modify k f [] = []"
| "modify k f ((k', s) # rest) =
     (if k' = k then (k', f s) # rest else (k', s) # modify k f rest)"

text \<open>Decimal rendering of the clock value in the template string \<^verbatim>\<open>worker-${Date.now()}\<close>.\<close>

fun show_nat :: "nat \<Rightarrow> string" where
  "show_nat n =
     (if n < 10 then [char_of (48 + n)]
      else show_nat (n div 10) @ [char_of (48 + n mod 10)])"

declare show_nat.simps [simp del]

definition show_int :: "int \<Rightarrow> string" where
  "show_int i = (if i < 0 then ''-'' @ show_nat (nat (- i)) else show_nat (nat i))"

text \<open>\<^verbatim>\<open>create\<close>; the value of \<^verbatim>\<open>crypto.randomUUID()\<close> is a parameter.\<close>

definition create :: "pool \<Rightarrow> string \<Rightarrow> int \<Rightarrow> subagent_config \<Rightarrow> subagent \<times> pool" where
  "create p uuid now config =
     (let sub = \<lparr> s_id = uuid, s_type = sc_type config, s_name = sc_name config,
                  s_status = Active, s_currentTask = None,
                  s_deployedAt = now, s_lastHeartbeat = now \<rparr>
      in (sub, map_set (s_id sub) sub p))"

text \<open>
  The first loop of \<^verbatim>\<open>allocate\<close>: the first idle subagent in iteration order is mutated in
  place and returned.
\<close>

fun claim_idle :: "pool \<Rightarrow> string \<Rightarrow> (subagent \<times> pool) option" where
  "claim_idle [] taskId = None"
| "claim_idle ((k, s) # rest) taskId =
     (if s_status s = Idle
      then (let s' = s\<lparr>s_status := Active, s_currentTask := Some taskId\<rparr>
            in Some (s', (k, s') # rest))
      else (case claim_idle rest taskId of
              None \<Rightarrow> None
            | Some (r, rest') \<Rightarrow> Some (r, (k, s) # rest')))"

definition allocate ::
  "pool \<Rightarrow> nat \<Rightarrow> string \<Rightarrow> int \<Rightarrow> task \<Rightarrow> error + (subagent \<times> pool)" where
  "allocate p maxSubagents uuid now tk =
     (case claim_idle p (t_id tk) of
        Some res \<Rightarrow> Inr res
      | None \<Rightarrow>
          if length p < maxSubagents
          then Inr (create p uuid now
                 \<lparr>sc_type = Worker, sc_name = ''worker-'' @ show_int now,
                  sc_domain = None, sc_resources = None\<rparr>)
          else Inl AtCapacity)"

definition release :: "pool \<Rightarrow> string \<Rightarrow> pool" where
  "release p subagentId =
     (case map_get p subagentId of
        None \<Rightarrow> p
      | Some sub \<Rightarrow> modify subagentId (\<lambda>s. s\<lparr>s_status := Idle, s_currentTask := None\<rparr>) p)"

definition remove :: "pool \<Rightarrow> string \<Rightarrow> pool" where
  "remove p subagentId = filter (\<lambda>(k, s). k \<noteq> subagentId) p"

definition list_subagents :: "pool \<Rightarrow> subagent list" where
  "list_subagents p = map snd p"

definition timeout :: int where
  "timeout = 5 * 60 * 1000"

definition healthCheck :: "pool \<Rightarrow> int \<Rightarrow> pool" where
  "healthCheck p now =
     map (\<lambda>(k, s). if now - s_lastHeartbeat s > timeout
                    then (k, s\<lparr>s_status := Error\<rparr>) else (k, s)) p"

definition heartbeat :: "pool \<Rightarrow> int \<Rightarrow> string \<Rightarrow> pool" where
  "heartbeat p now subagentId =
     (case map_get p subagentId of
        None \<Rightarrow> p
      | Some sub \<Rightarrow>
          modify subagentId
            (\<lambda>s. let s1 = s\<lparr>s_lastHeartbeat := now\<rparr>
                  in if s_status s1 = Error then s1\<lparr>s_status := Active\<rparr> else s1) p)"

text \<open>
  Repeated \<^verbatim>\<open>allocate\<close> calls: call number \<open>k\<close> draws the UUID \<open>uuid k\<close> and reads the
  clock value \<open>now k\<close>. The result lists the outcome of every call and the final pool; a
  call that throws leaves the pool as it was.
\<close>

fun allocate_many ::
  "pool \<Rightarrow> nat \<Rightarrow> (nat \<Rightarrow> string) \<Rightarrow> (nat \<Rightarrow> int) \<Rightarrow> nat \<Rightarrow> task list
     \<Rightarrow> (error + subagent) list \<times> pool" where
  "allocate_many p maxSubagents uuid now k [] = ([], p)"
| "allocate_many p maxSubagents uuid now k (tk # tks) =
     (case allocate p maxSubagents (uuid k) (now k) tk of
        Inl e \<Rightarrow>
          (let (rs, p') = allocate_many p maxSubagents uuid now (Suc k) tks
           in (Inl e # rs, p'))
      | Inr (sub, p1) \<Rightarrow>
          (let (rs, p') = allocate_many p1 maxSubagents uuid now (Suc k) tks
           in (Inr sub # rs, p')))"

section \<open>Master control agent (core/master-agent.ts)\<close>

text \<open>
  The two limits of \<^verbatim>\<open>MasterAgentConfig\<close> that the scheduler and the deployer read, and the
  parts of the agent that a scheduler tick touches: the queue's storage, the deployer's
  pool and the counter \<^verbatim>\<open>state.metrics.tasksActive\<close> kept by the state manager.
\<close>

record config =
  maxConcurrentTasks :: nat
  maxSubagents :: nat

record agent =
  a_config :: config
  a_storage :: storage
  a_pool :: pool
  a_tasksActive :: int

datatype resources = Direct | Subagent subagent

definition canProcessTask :: "agent \<Rightarrow> task \<Rightarrow> bool" where
  "canProcessTask ag tk =
     (if a_tasksActive ag \<ge> int (maxConcurrentTasks (a_config ag)) then False else True)"

definition allocateResources ::
  "agent \<Rightarrow> string \<Rightarrow> int \<Rightarrow> task \<Rightarrow> error + (resources \<times> agent)" where
  "allocateResources ag uuid now tk =
     (let needsSubagent = (t_type tk = ''complex'' \<or> t_priority tk > 7) in
      if needsSubagent
      then (case allocate (a_pool ag) (maxSubagents (a_config ag)) uuid now tk of
              Inl e \<Rightarrow> Inl e
            | Inr (sub, p') \<Rightarrow> Inr (Subagent sub, ag\<lparr>a_pool := p'\<rparr>))
      else Inr (Direct, ag))"

text \<open>The body of \<^verbatim>\<open>executeTask\<close> is empty in the source.\<close>

definition executeTask :: "agent \<Rightarrow> task \<Rightarrow> resources \<Rightarrow> agent" where
  "executeTask ag tk res = ag"

text \<open>
  One run of \<^verbatim>\<open>processAutonomousTasks\<close>. The result records the agent afterwards, the calls
  of \<^verbatim>\<open>executeTask\<close> in order, and the exception that ended the loop early, if any (it is
  caught and logged). Iteration \<open>k\<close> of the loop draws the UUID \<open>uuid k\<close> and reads the
  clock value \<open>now k\<close>. The closing \<^verbatim>\<open>performHealthCheck\<close> only reads.
\<close>

record tick_result =
  tr_agent :: agent
  tr_dispatched :: "(task \<times> resources) list"
  tr_error :: "error option"

fun process_loop ::
  "agent \<Rightarrow> (nat \<Rightarrow> string) \<Rightarrow> (nat \<Rightarrow> int) \<Rightarrow> nat \<Rightarrow> task list
     \<Rightarrow> (task \<times> resources) list \<Rightarrow> tick_result" where
  "process_loop ag uuid now k [] acc =
     \<lparr>tr_agent = ag, tr_dispatched = acc, tr_error = None\<rparr>"
| "process_loop ag uuid now k (tk # tks) acc =
     (if \<not> canProcessTask ag tk then process_loop ag uuid now (Suc k) tks acc
      else (case allocateResources ag (uuid k) (now k) tk of
              Inl e \<Rightarrow> \<lparr>tr_agent = ag, tr_dispatched = acc, tr_error = Some e\<rparr>
            | Inr (res, ag1) \<Rightarrow>
                process_loop (executeTask ag1 tk res) uuid now (Suc k) tks (acc @ [(tk, res)])))"

definition processAutonomousTasks ::
  "agent \<Rightarrow> (nat \<Rightarrow> string) \<Rightarrow> (nat \<Rightarrow> int) \<Rightarrow> tick_result" where
  "processAutonomousTasks ag uuid now =
     (let pendingTasks = getPending (a_storage ag) (maxConcurrentTasks (a_config ag))
      in process_loop ag uuid now 0 pendingTasks [])"


text \<open>
  \<^verbatim>\<open>executeCommand\<close>. The collaborators are parameters: the decision engine returns a
  decision or throws a message, the handler selected by the decision's category returns a
  result or throws, and \<^verbatim>\<open>connection.send\<close> and \<^verbatim>\<open>knowledge.learn\<close> may throw. Every
  exception raised inside the \<^verbatim>\<open>try\<close> block reaches the one \<^verbatim>\<open>catch\<close> block, which calls
  \<^verbatim>\<open>fail\<close> with the exception's message. The clock reads \<open>now\<close> at the start and \<open>later\<close>
  after the awaited calls.
\<close>

record decision =
  category :: string
  action :: string

record externals =
  x_analyze :: "string \<Rightarrow> string + decision"
  x_handler :: "decision \<Rightarrow> string + string"
  x_send :: "string option"
  x_learn :: "string option"

text \<open>The first statement of the \<^verbatim>\<open>try\<close> block, up to the await on the decision engine.\<close>

definition start_command :: "storage \<Rightarrow> int \<Rightarrow> task \<Rightarrow> error + storage" where
  "start_command st now tk = updateStatus st now (t_id tk) In_progress None"

definition executeCommand ::
  "storage \<Rightarrow> int \<Rightarrow> int \<Rightarrow> task \<Rightarrow> externals \<Rightarrow> error + storage" where
  "executeCommand st now later tk x =
     (let catch = (\<lambda>s m. fail s later (t_id tk) m) in
      case start_command st now tk of
        Inl e \<Rightarrow> catch st (message e)
      | Inr st1 \<Rightarrow>
          (case x_analyze x (t_payload tk) of
             Inl m \<Rightarrow> catch st1 m
           | Inr dec \<Rightarrow>
               (case x_handler x dec of
                  Inl m \<Rightarrow> catch st1 m
                | Inr res \<Rightarrow>
                    (case complete st1 later (t_id tk) res of
                       Inl e \<Rightarrow> catch st1 (message e)
                     | Inr st2 \<Rightarrow>
                         (case x_send x of
                            Some m \<Rightarrow> catch st2 m
                          | None \<Rightarrow>
                              (case x_learn x of
                                 Some m \<Rightarrow> catch st2 m
                               | None \<Rightarrow> Inr st2))))))"

text \<open>The task specification that \<^verbatim>\<open>handleCommand\<close> enqueues for a command.\<close>

definition command_data :: "string \<Rightarrow> task_data" where
  "command_data command =
     \<lparr> d_type = ''command'', d_description = command, d_priority = 5, d_payload = command,
       d_startedAt = None, d_completedAt = None, d_result = None, d_error = None,
       d_maxRetries = None, d_dependencies = None \<rparr>"

section \<open>Auxiliary definitions for the proofs\<close>

text \<open>The task that \<^verbatim>\<open>updateStatus\<close> writes back, as a function of the task it loaded.\<close>

definition updated_task :: "task \<Rightarrow> int \<Rightarrow> task_status \<Rightarrow> patch option \<Rightarrow> task" where
  "updated_task tk0 now s data =
     (let tk1 = tk0\<lparr>t_status := s\<rparr>;
          tk2 = (if s = In_progress \<and> falsy (t_startedAt tk1)
                 then tk1\<lparr>t_startedAt := Some now\<rparr>
                 else if (s = Completed \<or> s = Failed) \<and> falsy (t_completedAt tk1)
                 then tk1\<lparr>t_completedAt := Some now\<rparr>
                 else tk1)
      in (case data of None \<Rightarrow> tk2 | Some p \<Rightarrow> assign tk2 p))"

text \<open>The task written by the terminal branch of \<^verbatim>\<open>fail\<close>.\<close>

definition failed_task :: "task \<Rightarrow> int \<Rightarrow> string \<Rightarrow> task" where
  "failed_task tk now err =
     (if falsy (t_completedAt tk)
      then tk\<lparr>t_status := Failed, t_completedAt := Some now, t_error := Some err\<rparr>
      else tk\<lparr>t_status := Failed, t_error := Some err\<rparr>)"



text \<open>Concrete data for the instances below.\<close>

definition demo_task :: task where
  "demo_task = (new_task ''t1'' 1000 (command_data ''deploy''))\<lparr>t_maxRetries := 2\<rparr>"

definition demo_storage :: storage where
  "demo_storage = \<lparr>cf_agents_queues = [row_of demo_task], kv = Map.empty\<rparr>"

definition done_task :: task where
  "done_task = (new_task ''d1'' 500 (command_data ''build''))\<lparr>t_status := Completed\<rparr>"

definition dep_task :: task where
  "dep_task = new_task ''t2'' 600 ((command_data ''release'')\<lparr>d_dependencies := Some [''d1'']\<rparr>)"

definition dep_storage :: storage where
  "dep_storage = \<lparr>cf_agents_queues = [row_of done_task, row_of dep_task], kv = Map.empty\<rparr>"

definition bad_priority :: task_data where
  "bad_priority = (command_data ''x'')\<lparr>d_priority := 11\<rparr>"

definition bad_retries :: task_data where
  "bad_retries = (command_data ''y'')\<lparr>d_maxRetries := Some (- 1)\<rparr>"

definition zero_retries :: task_data where
  "zero_retries = (command_data ''z'')\<lparr>d_maxRetries := Some 0\<rparr>"

text \<open>The order of the \<^verbatim>\<open>ORDER BY\<close> clause, read on the returned tasks.\<close>

definition before :: "task \<Rightarrow> task \<Rightarrow> bool" where
  "before a b = (t_priority a > t_priority b
                 \<or> (t_priority a = t_priority b \<and> t_createdAt a \<le> t_createdAt b))"

definition pending_rows :: "storage \<Rightarrow> row list" where
  "pending_rows st = filter (\<lambda>r. r_status r = Pending) (cf_agents_queues st)"

definition urgent :: task_data where
  "urgent = (command_data ''A'')\<lparr>d_priority := 9\<rparr>"

definition minor :: task_data where
  "minor = (command_data ''B'')\<lparr>d_priority := 3\<rparr>"

text \<open>The subagent that \<^verbatim>\<open>allocate\<close> creates when no idle one exists.\<close>

definition worker :: "string \<Rightarrow> int \<Rightarrow> subagent" where
  "worker uuid now =
     \<lparr> s_id = uuid, s_type = Worker, s_name = ''worker-'' @ show_int now, s_status = Active,
       s_currentTask = None, s_deployedAt = now, s_lastHeartbeat = now \<rparr>"

definition claimed :: "subagent \<Rightarrow> string \<Rightarrow> subagent" where
  "claimed s taskId = s\<lparr>s_status := Active, s_currentTask := Some taskId\<rparr>"

definition no_idle :: "pool \<Rightarrow> bool" where
  "no_idle p = list_all (\<lambda>(k, s). s_status s \<noteq> Idle) p"

definition demo_uuid :: "nat \<Rightarrow> string" where
  "demo_uuid j = replicate (Suc j) (CHR ''u'')"

definition demo_now :: "nat \<Rightarrow> int" where
  "demo_now j = 5000 + int j"

definition idle_sub :: subagent where
  "idle_sub = \<lparr> s_id = ''s1'', s_type = Worker, s_name = ''worker-0'', s_status = Idle,
                 s_currentTask = None, s_deployedAt = 0, s_lastHeartbeat = 0 \<rparr>"

definition busy_sub :: subagent where
  "busy_sub = \<lparr> s_id = ''s2'', s_type = Worker, s_name = ''worker-1'', s_status = Active,
                 s_currentTask = Some ''t0'', s_deployedAt = 1, s_lastHeartbeat = 1 \<rparr>"

definition stale :: "int \<Rightarrow> subagent \<Rightarrow> bool" where
  "stale now s = (now - s_lastHeartbeat s > 5 * 60 * 1000)"

definition stale_idle :: subagent where
  "stale_idle = \<lparr> s_id = ''s1'', s_type = Worker, s_name = ''worker-0'', s_status = Idle,
                   s_currentTask = None, s_deployedAt = 0, s_lastHeartbeat = 0 \<rparr>"

definition stale_busy :: subagent where
  "stale_busy = \<lparr> s_id = ''s2'', s_type = Worker, s_name = ''worker-1'', s_status = Active,
                   s_currentTask = Some ''t0'', s_deployedAt = 1, s_lastHeartbeat = 1 \<rparr>"

definition taskA :: task where
  "taskA = new_task ''a'' 10 (command_data ''A'')"

definition taskB :: task where
  "taskB = new_task ''b'' 20 (command_data ''B'')"

definition taskC :: task where
  "taskC = new_task ''c'' 30 (command_data ''C'')"

text \<open>A task of priority 9 that depends on the pending task \<open>taskA\<close>.\<close>

definition dependent :: task where
  "dependent = new_task ''d'' 40
     ((command_data ''D'')\<lparr>d_priority := 9, d_dependencies := Some [''a'']\<rparr>)"


text \<open>An agent with nothing active whose queue holds \<open>taskA\<close> and the task depending on it.\<close>

definition idle_agent :: agent where
  "idle_agent =
     \<lparr> a_config = \<lparr>maxConcurrentTasks = 2, maxSubagents = 50\<rparr>,
       a_storage = \<lparr>cf_agents_queues = [row_of taskA, row_of dependent], kv = Map.empty\<rparr>,
       a_pool = [],
       a_tasksActive = 0 \<rparr>"

definition oracle_down :: externals where
  "oracle_down =
     \<lparr> x_analyze = (\<lambda>command. Inl ''oracle unavailable''),
       x_handler = (\<lambda>dec. Inr ''done''),
       x_send = None, x_learn = None \<rparr>"

text \<open>The task of \<open>demo_storage\<close> after it has used its two retries.\<close>

definition spent_task :: task where
  "spent_task = demo_task\<lparr>t_retryCount := 2\<rparr>"

definition spent_storage :: storage where
  "spent_storage = \<lparr>cf_agents_queues = [row_of spent_task], kv = Map.empty\<rparr>"

section \<open>Lookup and update of rows\<close>

lemma find_id_SomeD:
  "find (\<lambda>r. r_id r = i) rows = Some r \<Longrightarrow> r \<in> set rows \<and> r_id r = i"
  by (induction rows) (auto split: if_splits)

lemma find_id_None: "find (\<lambda>r. r_id r = i) rows = None \<longleftrightarrow> i \<notin> r_id ` set rows"
  by (induction rows) auto

lemma getTask_SomeD:
  "getTask st i = Some tk \<Longrightarrow> \<exists>r \<in> set (cf_agents_queues st). r_id r = i \<and> r_payload r = tk"
  unfolding getTask_def by (auto dest: find_id_SomeD)

lemma getTask_None: "getTask st i = None \<longleftrightarrow> i \<notin> r_id ` set (cf_agents_queues st)"
  unfolding getTask_def by (simp add: find_id_None)

lemma row_unique:
  "distinct (map r_id rows) \<Longrightarrow> r \<in> set rows \<Longrightarrow> r' \<in> set rows \<Longrightarrow> r_id r = r_id r' \<Longrightarrow> r = r'"
  by (auto simp: distinct_map dest: inj_onD)

lemma find_sql_update:
  "find (\<lambda>r. r_id r = i) rows = Some r0 \<Longrightarrow>
   find (\<lambda>r. r_id r = i) (sql_update rows i tk s) = Some (r0\<lparr>r_payload := tk, r_status := s\<rparr>)"
  unfolding sql_update_def by (induction rows) (auto split: if_splits)


lemma getTask_sql_update:
  "getTask st i = Some tk0 \<Longrightarrow>
   getTask (st\<lparr>cf_agents_queues := sql_update (cf_agents_queues st) i tk s\<rparr>) i = Some tk"
  unfolding getTask_def by (auto simp: find_sql_update)


lemma ids_sql_update: "map r_id (sql_update rows i tk s) = map r_id rows"
  unfolding sql_update_def by (induction rows) auto

lemma fail_retry:
  assumes "getTask st i = Some tk" and "t_retryCount tk < t_maxRetries tk"
  shows "fail st now i err =
           Inr (st\<lparr>cf_agents_queues := sql_update (cf_agents_queues st) i
                  (tk\<lparr>t_retryCount := t_retryCount tk + 1, t_status := Pending, t_error := Some err\<rparr>) Pending\<rparr>)"
  using assms by (simp add: fail_def)

lemma fail_terminal:
  assumes "getTask st i = Some tk" and "\<not> t_retryCount tk < t_maxRetries tk"
  shows "fail st now i err =
           Inr (moveToDLQ (st\<lparr>cf_agents_queues := sql_update (cf_agents_queues st) i
                  (failed_task tk now err) Failed\<rparr>) now tk err)"
  using assms by (simp add: fail_def updateStatus_def assign_def failed_task_def Let_def)

lemma consistentD:
  "consistent st \<Longrightarrow> r \<in> set (cf_agents_queues st) \<Longrightarrow> row_ok r"
  by (simp add: consistent_def list_all_iff)

lemma getTask_row:
  assumes "consistent st" and "getTask st i = Some tk" and "r \<in> set (cf_agents_queues st)" and "r_id r = i"
  shows "r_payload r = tk"
proof -
  from assms(2) obtain r0 where r0: "r0 \<in> set (cf_agents_queues st)" "r_id r0 = i" "r_payload r0 = tk"
    by (auto dest: getTask_SomeD)
  from assms(1) have "distinct (map r_id (cf_agents_queues st))" by (simp add: consistent_def)
  from row_unique[OF this assms(3) r0(1)] assms(4) r0(2) have "r = r0" by simp
  with r0 show ?thesis by simp
qed

lemma consistent_sql_update:
  assumes c: "consistent st" and g: "getTask st i = Some tk0"
    and tk: "t_id tk = t_id tk0" "t_priority tk = t_priority tk0" "t_createdAt tk = t_createdAt tk0"
            "t_status tk = s"
  shows "consistent (st\<lparr>cf_agents_queues := sql_update (cf_agents_queues st) i tk s\<rparr>)"
proof -
  have "row_ok (if r_id r = i then r\<lparr>r_payload := tk, r_status := s\<rparr> else r)"
    if "r \<in> set (cf_agents_queues st)" for r
  proof (cases "r_id r = i")
    case True
    from getTask_row[OF c g that True] consistentD[OF c that] tk True show ?thesis
      by (simp add: row_ok_def)
  next
    case False
    with consistentD[OF c that] show ?thesis by simp
  qed
  then have "list_all row_ok (sql_update (cf_agents_queues st) i tk s)"
    unfolding sql_update_def list_all_iff set_map by blast
  moreover from c have "distinct (map r_id (sql_update (cf_agents_queues st) i tk s))"
    by (simp add: ids_sql_update consistent_def)
  ultimately show ?thesis by (simp add: consistent_def)
qed

lemma consistent_enqueue:
  assumes "consistent st" and "enqueue st nid now d = Inr (tk, st')"
  shows "consistent st'"
  using assms
  by (auto simp: enqueue_def Let_def consistent_def row_ok_def row_of_def new_task_def
           split: if_splits)

lemma assign_fields [simp]:
  "t_id (assign tk p) = t_id tk" "t_priority (assign tk p) = t_priority tk"
  "t_createdAt (assign tk p) = t_createdAt tk" "t_status (assign tk p) = t_status tk"
  "t_retryCount (assign tk p) = t_retryCount tk" "t_maxRetries (assign tk p) = t_maxRetries tk"
  by (simp_all add: assign_def Let_def split: option.splits)

lemma updated_task_fields [simp]:
  "t_id (updated_task tk now s data) = t_id tk"
  "t_priority (updated_task tk now s data) = t_priority tk"
  "t_createdAt (updated_task tk now s data) = t_createdAt tk"
  "t_status (updated_task tk now s data) = s"
  "t_retryCount (updated_task tk now s data) = t_retryCount tk"
  "t_maxRetries (updated_task tk now s data) = t_maxRetries tk"
  by (simp_all add: updated_task_def Let_def split: option.splits)

lemma updateStatus_eq:
  "updateStatus st now i s data =
     (case getTask st i of None \<Rightarrow> Inl (TaskNotFound i)
      | Some tk0 \<Rightarrow> Inr (st\<lparr>cf_agents_queues :=
           sql_update (cf_agents_queues st) i (updated_task tk0 now s data) s\<rparr>))"
  by (simp add: updateStatus_def updated_task_def Let_def split: option.splits)

lemma updateStatus_Inr:
  assumes "updateStatus st now i s data = Inr st'"
  shows "\<exists>tk0. getTask st i = Some tk0
            \<and> st' = st\<lparr>cf_agents_queues :=
                  sql_update (cf_agents_queues st) i (updated_task tk0 now s data) s\<rparr>"
  using assms by (auto simp: updateStatus_eq split: option.splits)

lemma consistent_updateStatus:
  assumes "consistent st" and "updateStatus st now i s data = Inr st'"
  shows "consistent st'"
proof -
  from updateStatus_Inr[OF assms(2)] obtain tk0 where
    "getTask st i = Some tk0"
    "st' = st\<lparr>cf_agents_queues := sql_update (cf_agents_queues st) i (updated_task tk0 now s data) s\<rparr>"
    by blast
  then show ?thesis using consistent_sql_update[OF assms(1)] by simp
qed

lemma consistent_moveToDLQ: "consistent (moveToDLQ st now tk err) = consistent st"
  by (simp add: consistent_def moveToDLQ_def)

lemma consistent_fail:
  assumes c: "consistent st" and f: "fail st now i err = Inr st'"
  shows "consistent st'"
proof (cases "getTask st i")
  case None
  with f c show ?thesis by (simp add: fail_def)
next
  case (Some tk)
  show ?thesis
  proof (cases "t_retryCount tk < t_maxRetries tk")
    case True
    from fail_retry[OF Some True, of now err] f
    have "st' = st\<lparr>cf_agents_queues := sql_update (cf_agents_queues st) i
                  (tk\<lparr>t_retryCount := t_retryCount tk + 1, t_status := Pending, t_error := Some err\<rparr>) Pending\<rparr>"
      by simp
    then show ?thesis using consistent_sql_update[OF c Some] by simp
  next
    case False
    from fail_terminal[OF Some False, of now err] f
    have "st' = moveToDLQ (st\<lparr>cf_agents_queues := sql_update (cf_agents_queues st) i
                  (failed_task tk now err) Failed\<rparr>) now tk err"
      by simp
    then show ?thesis using consistent_sql_update[OF c Some, of "failed_task tk now err" Failed]
      by (simp add: consistent_moveToDLQ failed_task_def)
  qed
qed

lemma consistent_cleanup: "consistent st \<Longrightarrow> consistent (snd (cleanup st now days))"
  by (simp add: cleanup_def Let_def consistent_def list_all_iff distinct_map_filter)

lemma consistent_apply_op: "consistent st \<Longrightarrow> consistent (apply_op st op)"
proof (cases op)
  case (Enqueue nid now d)
  assume "consistent st"
  then show ?thesis using Enqueue consistent_enqueue
    by (auto split: sum.splits)
next
  case (UpdateStatus now i s data)
  assume "consistent st"
  then show ?thesis using UpdateStatus consistent_updateStatus
    by (auto split: sum.splits)
next
  case (Complete now i res)
  assume "consistent st"
  then show ?thesis using Complete consistent_updateStatus
    by (auto simp: complete_def split: sum.splits)
next
  case (Fail now i err)
  assume "consistent st"
  then show ?thesis using Fail consistent_fail
    by (auto split: sum.splits)
next
  case (Cleanup now days)
  assume "consistent st"
  then show ?thesis using Cleanup consistent_cleanup by simp
qed

lemma consistent_run_ops: "consistent st \<Longrightarrow> consistent (run_ops st ops)"
  unfolding run_ops_def by (induction ops arbitrary: st) (simp_all add: consistent_apply_op)

text \<open>Every table that the queue's operations build from the empty table is consistent.\<close>

lemma consistent_reachable: "consistent (run_ops empty_storage ops)"
  by (rule consistent_run_ops) (simp add: consistent_def empty_storage_def)

section \<open>Retry and dead-letter policy\<close>











lemma getPending_rows:
  assumes "tk \<in> set (getPending st limit)"
  shows "\<exists>r \<in> set (cf_agents_queues st). r_status r = Pending \<and> r_payload r = tk"
proof -
  from assms obtain r where
    r: "r \<in> set (take limit (sort_key order_key (filter (\<lambda>r. r_status r = Pending) (cf_agents_queues st))))"
    and tk: "r_payload r = tk"
    by (auto simp: getPending_def)
  from r have "r \<in> set (sort_key order_key (filter (\<lambda>r. r_status r = Pending) (cf_agents_queues st)))"
    by (rule in_set_takeD)
  then have "r \<in> set (cf_agents_queues st) \<and> r_status r = Pending" by simp
  with tk show ?thesis by blast
qed





















section \<open>Dependencies\<close>

lemma deps_loop_iff:
  "deps_loop st ds = (\<forall>d \<in> set ds. \<exists>dep. getTask st d = Some dep \<and> t_status dep = Completed)"
  by (induction ds) (auto split: option.splits)

text \<open>
  C9. \<^verbatim>\<open>areDependenciesSatisfied\<close> is true exactly when every listed dependency id resolves
  to a stored task whose status is completed. A dependency id that resolves to no task makes
  the result false, and an absent or empty dependency list gives true.
\<close>

theorem areDependenciesSatisfied_iff:
  "(areDependenciesSatisfied st tk \<longleftrightarrow>
      (\<forall>d \<in> set (deps_of tk). \<exists>dep. getTask st d = Some dep \<and> t_status dep = Completed))
   \<and> (d \<in> set (deps_of tk) \<and> getTask st d = None \<longrightarrow> \<not> areDependenciesSatisfied st tk)
   \<and> (t_dependencies tk = None \<or> t_dependencies tk = Some [] \<longrightarrow> areDependenciesSatisfied st tk)"
proof -
  have main: "areDependenciesSatisfied st tk \<longleftrightarrow>
      (\<forall>d \<in> set (deps_of tk). \<exists>dep. getTask st d = Some dep \<and> t_status dep = Completed)"
    by (cases "t_dependencies tk")
       (simp_all add: areDependenciesSatisfied_def deps_of_def deps_loop_iff)
  have closed: "d \<in> set (deps_of tk) \<and> getTask st d = None \<longrightarrow> \<not> areDependenciesSatisfied st tk"
    unfolding main by force
  have none: "t_dependencies tk = None \<or> t_dependencies tk = Some [] \<longrightarrow> areDependenciesSatisfied st tk"
    unfolding main by (auto simp: deps_of_def)
  from main closed none show ?thesis by blast
qed

theorem areDependenciesSatisfied_iff_witness:
  "deps_of dep_task = [''d1''] \<and> getTask dep_storage ''d1'' = Some done_task
   \<and> t_status done_task = Completed
   \<and> areDependenciesSatisfied dep_storage dep_task
   \<and> ''zz'' \<in> set (deps_of (dep_task\<lparr>t_dependencies := Some [''d1'', ''zz'']\<rparr>))
   \<and> getTask dep_storage ''zz'' = None
   \<and> \<not> areDependenciesSatisfied dep_storage (dep_task\<lparr>t_dependencies := Some [''d1'', ''zz'']\<rparr>)
   \<and> areDependenciesSatisfied dep_storage (dep_task\<lparr>t_dependencies := None\<rparr>)"
proof -
  have g: "getTask dep_storage ''d1'' = Some done_task" "t_status done_task = Completed"
    "getTask dep_storage ''zz'' = None"
    by (simp_all add: getTask_def dep_storage_def row_of_def done_task_def dep_task_def new_task_def)
  have d: "deps_of dep_task = [''d1'']"
    "deps_of (dep_task\<lparr>t_dependencies := Some [''d1'', ''zz'']\<rparr>) = [''d1'', ''zz'']"
    "deps_of (dep_task\<lparr>t_dependencies := None\<rparr>) = []"
    by (simp_all add: deps_of_def dep_task_def new_task_def command_data_def)
  show ?thesis
    using areDependenciesSatisfied_iff[of dep_storage dep_task]
      areDependenciesSatisfied_iff[where d = "''zz''" and st = dep_storage
        and tk = "dep_task\<lparr>t_dependencies := Some [''d1'', ''zz'']\<rparr>"]
      areDependenciesSatisfied_iff[of dep_storage "dep_task\<lparr>t_dependencies := None\<rparr>"]
    by (simp add: g d)
qed

section \<open>Enqueue\<close>

lemma enqueue_fresh:
  assumes "nid \<notin> r_id ` set (cf_agents_queues st)"
  shows "enqueue st nid now d =
           Inr (new_task nid now d, st\<lparr>cf_agents_queues := cf_agents_queues st @ [row_of (new_task nid now d)]\<rparr>)"
  using assms by (auto simp: enqueue_def Let_def new_task_def)

lemma enqueue_clash:
  assumes "nid \<in> r_id ` set (cf_agents_queues st)"
  shows "enqueue st nid now d = Inl (PrimaryKeyViolation nid)"
  using assms by (auto simp: enqueue_def Let_def new_task_def)

lemma find_append_None:
  "find P xs = None \<Longrightarrow> find P (xs @ ys) = find P ys"
  by (induction xs) (auto split: if_splits)

lemma getTask_append_fresh:
  assumes "nid \<notin> r_id ` set (cf_agents_queues st)"
  shows "getTask (st\<lparr>cf_agents_queues := cf_agents_queues st @ [row_of (new_task nid now d)]\<rparr>) nid
           = Some (new_task nid now d)"
proof -
  from assms have "find (\<lambda>r. r_id r = nid) (cf_agents_queues st) = None"
    by (simp add: find_id_None)
  then show ?thesis
    by (simp add: getTask_def find_append_None row_of_def new_task_def)
qed

text \<open>
  C8, as stated, fails: \<^verbatim>\<open>enqueue\<close> stores a specification with priority 11 and one with
  maxRetries -1, and returns the task.
\<close>

theorem enqueue_no_validation_counterexample:
  "d_priority bad_priority = 11
   \<and> enqueue empty_storage ''n1'' 1000 bad_priority
       = Inr (new_task ''n1'' 1000 bad_priority,
              \<lparr>cf_agents_queues = [row_of (new_task ''n1'' 1000 bad_priority)], kv = Map.empty\<rparr>)
   \<and> t_priority (new_task ''n1'' 1000 bad_priority) = 11
   \<and> d_maxRetries bad_retries = Some (- 1)
   \<and> enqueue empty_storage ''n2'' 1000 bad_retries
       = Inr (new_task ''n2'' 1000 bad_retries,
              \<lparr>cf_agents_queues = [row_of (new_task ''n2'' 1000 bad_retries)], kv = Map.empty\<rparr>)
   \<and> t_maxRetries (new_task ''n2'' 1000 bad_retries) = - 1"
  by (simp add: enqueue_def Let_def empty_storage_def new_task_def bad_priority_def bad_retries_def
        command_data_def or_default_def)

text \<open>
  C8, amended. \<^verbatim>\<open>enqueue\<close> performs no validation of maxRetries or priority: whether a
  specification is accepted never depends on them, so a specification with maxRetries below
  0 or a priority outside 1..10 is accepted like any other and stored with those values. On
  every accepted specification it assigns the generated id, which is not yet in the table,
  and sets status pending, createdAt = now and retryCount 0; the row appended to the table
  carries the task and the same id, status, priority and creation time.
\<close>

theorem enqueue_accepts_every_specification:
  "(nid \<notin> r_id ` set (cf_agents_queues st) \<longrightarrow>
      (\<exists>tk r. enqueue st nid now d = Inr (tk, st\<lparr>cf_agents_queues := cf_agents_queues st @ [r]\<rparr>)
          \<and> t_id tk = nid \<and> t_status tk = Pending \<and> t_createdAt tk = now \<and> t_retryCount tk = 0
          \<and> t_priority tk = d_priority d
          \<and> (\<forall>n. d_maxRetries d = Some n \<and> n \<noteq> 0 \<longrightarrow> t_maxRetries tk = n)
          \<and> t_type tk = d_type d \<and> t_description tk = d_description d
          \<and> t_payload tk = d_payload d \<and> t_dependencies tk = d_dependencies d
          \<and> r_payload r = tk \<and> r_id r = nid \<and> r_status r = Pending
          \<and> r_priority r = d_priority d \<and> r_created_at r = now \<and> r_type r = d_type d))
   \<and> (\<forall>tk st'. enqueue st nid now d = Inr (tk, st') \<longrightarrow> t_id tk \<notin> r_id ` set (cf_agents_queues st))
   \<and> isl (enqueue st nid now (d\<lparr>d_priority := p, d_maxRetries := m\<rparr>)) = isl (enqueue st nid now d)"
proof (intro conjI impI allI)
  assume "nid \<notin> r_id ` set (cf_agents_queues st)"
  from enqueue_fresh[OF this, of now d]
  have "enqueue st nid now d
          = Inr (new_task nid now d, st\<lparr>cf_agents_queues := cf_agents_queues st @ [row_of (new_task nid now d)]\<rparr>)
        \<and> t_id (new_task nid now d) = nid \<and> t_status (new_task nid now d) = Pending
        \<and> t_createdAt (new_task nid now d) = now \<and> t_retryCount (new_task nid now d) = 0
        \<and> t_priority (new_task nid now d) = d_priority d
        \<and> (\<forall>n. d_maxRetries d = Some n \<and> n \<noteq> 0 \<longrightarrow> t_maxRetries (new_task nid now d) = n)
        \<and> t_type (new_task nid now d) = d_type d \<and> t_description (new_task nid now d) = d_description d
        \<and> t_payload (new_task nid now d) = d_payload d
        \<and> t_dependencies (new_task nid now d) = d_dependencies d
        \<and> r_payload (row_of (new_task nid now d)) = new_task nid now d
        \<and> r_id (row_of (new_task nid now d)) = nid
        \<and> r_status (row_of (new_task nid now d)) = Pending
        \<and> r_priority (row_of (new_task nid now d)) = d_priority d
        \<and> r_created_at (row_of (new_task nid now d)) = now
        \<and> r_type (row_of (new_task nid now d)) = d_type d"
    by (simp add: new_task_def row_of_def or_default_def)
  then show "\<exists>tk r. enqueue st nid now d = Inr (tk, st\<lparr>cf_agents_queues := cf_agents_queues st @ [r]\<rparr>)
          \<and> t_id tk = nid \<and> t_status tk = Pending \<and> t_createdAt tk = now \<and> t_retryCount tk = 0
          \<and> t_priority tk = d_priority d
          \<and> (\<forall>n. d_maxRetries d = Some n \<and> n \<noteq> 0 \<longrightarrow> t_maxRetries tk = n)
          \<and> t_type tk = d_type d \<and> t_description tk = d_description d
          \<and> t_payload tk = d_payload d \<and> t_dependencies tk = d_dependencies d
          \<and> r_payload r = tk \<and> r_id r = nid \<and> r_status r = Pending
          \<and> r_priority r = d_priority d \<and> r_created_at r = now \<and> r_type r = d_type d"
    by (intro exI[of _ "new_task nid now d"] exI[of _ "row_of (new_task nid now d)"])
next
  fix tk st' assume "enqueue st nid now d = Inr (tk, st')"
  then show "t_id tk \<notin> r_id ` set (cf_agents_queues st)"
    by (auto simp: enqueue_def Let_def split: if_splits)
next
  show "isl (enqueue st nid now (d\<lparr>d_priority := p, d_maxRetries := m\<rparr>)) = isl (enqueue st nid now d)"
    by (simp add: enqueue_def Let_def new_task_def)
qed

theorem enqueue_accepts_every_specification_witness:
  "''n1'' \<notin> r_id ` set (cf_agents_queues demo_storage)
   \<and> d_priority bad_priority = 11 \<and> d_maxRetries bad_retries = Some (- 1)
   \<and> (\<exists>tk r. enqueue demo_storage ''n1'' 2000 bad_priority
               = Inr (tk, demo_storage\<lparr>cf_agents_queues := cf_agents_queues demo_storage @ [r]\<rparr>)
          \<and> t_id tk = ''n1'' \<and> t_status tk = Pending \<and> t_createdAt tk = 2000 \<and> t_retryCount tk = 0
          \<and> t_priority tk = 11 \<and> r_payload r = tk \<and> r_priority r = 11)
   \<and> (\<exists>tk r. enqueue demo_storage ''n1'' 2000 bad_retries
               = Inr (tk, demo_storage\<lparr>cf_agents_queues := cf_agents_queues demo_storage @ [r]\<rparr>)
          \<and> t_id tk = ''n1'' \<and> t_status tk = Pending \<and> t_maxRetries tk = - 1 \<and> r_payload r = tk)
   \<and> isl (enqueue demo_storage ''t1'' 2000 (bad_priority\<lparr>d_priority := 5, d_maxRetries := Some 3\<rparr>))
       = isl (enqueue demo_storage ''t1'' 2000 bad_priority)"
proof -
  have a: "''n1'' \<notin> r_id ` set (cf_agents_queues demo_storage)"
    by (simp add: demo_storage_def row_of_def demo_task_def new_task_def)
  have p: "d_priority bad_priority = 11" by (simp add: bad_priority_def)
  have m: "d_maxRetries bad_retries = Some (- 1)" by (simp add: bad_retries_def)
  note t1 = enqueue_accepts_every_specification[where nid = "''n1''" and st = demo_storage
      and now = 2000 and d = bad_priority,
      THEN conjunct1, THEN mp, OF a]
  note t2 = enqueue_accepts_every_specification[where nid = "''n1''" and st = demo_storage
      and now = 2000 and d = bad_retries,
      THEN conjunct1, THEN mp, OF a]
  note t3 = enqueue_accepts_every_specification[where nid = "''t1''" and st = demo_storage
      and now = 2000 and d = bad_priority and p = 5 and m = "Some 3",
      THEN conjunct2, THEN conjunct2]
  from t1 p have 1: "\<exists>tk r. enqueue demo_storage ''n1'' 2000 bad_priority
               = Inr (tk, demo_storage\<lparr>cf_agents_queues := cf_agents_queues demo_storage @ [r]\<rparr>)
          \<and> t_id tk = ''n1'' \<and> t_status tk = Pending \<and> t_createdAt tk = 2000 \<and> t_retryCount tk = 0
          \<and> t_priority tk = 11 \<and> r_payload r = tk \<and> r_priority r = 11"
    by (elim exE conjE) auto
  from t2 m have 2: "\<exists>tk r. enqueue demo_storage ''n1'' 2000 bad_retries
               = Inr (tk, demo_storage\<lparr>cf_agents_queues := cf_agents_queues demo_storage @ [r]\<rparr>)
          \<and> t_id tk = ''n1'' \<and> t_status tk = Pending \<and> t_maxRetries tk = - 1 \<and> r_payload r = tk"
    by (elim exE conjE) auto
  from a p m 1 2 t3 show ?thesis by (intro conjI)
qed

lemma fail_retry_step:
  assumes "getTask st i = Some tk" and "t_retryCount tk < t_maxRetries tk"
  shows "\<exists>st' tk'. fail st now i err = Inr st' \<and> getTask st' i = Some tk'
           \<and> t_retryCount tk' = t_retryCount tk + 1 \<and> t_maxRetries tk' = t_maxRetries tk
           \<and> t_id tk' = t_id tk \<and> t_status tk' = Pending \<and> kv st' = kv st"
  using fail_retry[OF assms, of now err] getTask_sql_update[OF assms(1)]
  by simp

lemma fail_terminal_step:
  assumes g: "getTask st i = Some tk" and r: "\<not> t_retryCount tk < t_maxRetries tk"
  shows "\<exists>st' tk' e. fail st now i err = Inr st' \<and> getTask st' i = Some tk'
           \<and> t_status tk' = Failed \<and> t_retryCount tk' = t_retryCount tk
           \<and> kv st' (''dlq:'' @ t_id tk) = Some e \<and> e_taskId e = t_id tk \<and> e_error e = err"
proof -
  let ?st1 = "st\<lparr>cf_agents_queues := sql_update (cf_agents_queues st) i (failed_task tk now err) Failed\<rparr>"
  let ?st' = "moveToDLQ ?st1 now tk err"
  have f: "fail st now i err = Inr ?st'" by (rule fail_terminal[OF g r])
  have "getTask ?st1 i = Some (failed_task tk now err)" by (rule getTask_sql_update[OF g])
  then have g': "getTask ?st' i = Some (failed_task tk now err)"
    by (simp add: getTask_def moveToDLQ_def)
  have k: "kv ?st' (''dlq:'' @ t_id tk) =
             Some \<lparr>e_taskId = t_id tk, e_task = tk, e_error = err, e_timestamp = now\<rparr>"
    by (simp add: moveToDLQ_def)
  have fields: "t_status (failed_task tk now err) = Failed"
    "t_retryCount (failed_task tk now err) = t_retryCount tk"
    by (simp_all add: failed_task_def)
  from f g' k fields show ?thesis by simp
qed

text \<open>
  C10. A specification with an explicit maxRetries of 0 is stored with maxRetries 3: the
  first three failures leave the task pending with retryCount 1, 2 and 3, and only the
  fourth makes it failed and writes the dead-letter entry.
\<close>

theorem enqueue_explicit_zero_maxRetries_becomes_three:
  assumes z: "d_maxRetries d = Some 0" and fresh: "nid \<notin> r_id ` set (cf_agents_queues st)"
  shows "\<exists>tk st0 st1 tk1 st2 tk2 st3 tk3 st4 tk4 e.
           enqueue st nid now d = Inr (tk, st0) \<and> getTask st0 nid = Some tk
           \<and> t_maxRetries tk = 3 \<and> t_retryCount tk = 0
           \<and> fail st0 n1 nid e1 = Inr st1 \<and> getTask st1 nid = Some tk1
           \<and> t_status tk1 = Pending \<and> t_retryCount tk1 = 1
           \<and> fail st1 n2 nid e2 = Inr st2 \<and> getTask st2 nid = Some tk2
           \<and> t_status tk2 = Pending \<and> t_retryCount tk2 = 2
           \<and> fail st2 n3 nid e3 = Inr st3 \<and> getTask st3 nid = Some tk3
           \<and> t_status tk3 = Pending \<and> t_retryCount tk3 = 3
           \<and> fail st3 n4 nid e4 = Inr st4 \<and> getTask st4 nid = Some tk4
           \<and> t_status tk4 = Failed \<and> kv st4 (''dlq:'' @ nid) = Some e \<and> e_error e = e4"
proof -
  let ?tk = "new_task nid now d"
  let ?st0 = "st\<lparr>cf_agents_queues := cf_agents_queues st @ [row_of ?tk]\<rparr>"
  have e: "enqueue st nid now d = Inr (?tk, ?st0)" by (rule enqueue_fresh[OF fresh])
  have g0: "getTask ?st0 nid = Some ?tk" by (rule getTask_append_fresh[OF fresh])
  have f0: "t_maxRetries ?tk = 3" "t_retryCount ?tk = 0" "t_id ?tk = nid"
    using z by (simp_all add: new_task_def or_default_def)
  from f0 have "t_retryCount ?tk < t_maxRetries ?tk" by simp
  from fail_retry_step[OF g0 this, of n1 e1] f0 obtain st1 tk1 where
    s1: "fail ?st0 n1 nid e1 = Inr st1" "getTask st1 nid = Some tk1" "t_retryCount tk1 = 1"
        "t_maxRetries tk1 = 3" "t_id tk1 = nid" "t_status tk1 = Pending"
    by auto
  from s1 have "t_retryCount tk1 < t_maxRetries tk1" by simp
  from fail_retry_step[OF s1(2) this, of n2 e2] s1 obtain st2 tk2 where
    s2: "fail st1 n2 nid e2 = Inr st2" "getTask st2 nid = Some tk2" "t_retryCount tk2 = 2"
        "t_maxRetries tk2 = 3" "t_id tk2 = nid" "t_status tk2 = Pending"
    by auto
  from s2 have "t_retryCount tk2 < t_maxRetries tk2" by simp
  from fail_retry_step[OF s2(2) this, of n3 e3] s2 obtain st3 tk3 where
    s3: "fail st2 n3 nid e3 = Inr st3" "getTask st3 nid = Some tk3" "t_retryCount tk3 = 3"
        "t_maxRetries tk3 = 3" "t_id tk3 = nid" "t_status tk3 = Pending"
    by auto
  from s3 have "\<not> t_retryCount tk3 < t_maxRetries tk3" by simp
  from fail_terminal_step[OF s3(2) this, of n4 e4] s3 obtain st4 tk4 e where
    s4: "fail st3 n4 nid e4 = Inr st4" "getTask st4 nid = Some tk4" "t_status tk4 = Failed"
        "kv st4 (''dlq:'' @ nid) = Some e" "e_error e = e4"
    by auto
  from e g0 f0 s1 s2 s3 s4 show ?thesis by blast
qed

theorem enqueue_explicit_zero_maxRetries_becomes_three_witness:
  "d_maxRetries zero_retries = Some 0 \<and> ''n3'' \<notin> r_id ` set (cf_agents_queues empty_storage)
   \<and> (\<exists>tk st0 st1 tk1 st2 tk2 st3 tk3 st4 tk4 e.
           enqueue empty_storage ''n3'' 1000 zero_retries = Inr (tk, st0) \<and> getTask st0 ''n3'' = Some tk
           \<and> t_maxRetries tk = 3 \<and> t_retryCount tk = 0
           \<and> fail st0 1001 ''n3'' ''a'' = Inr st1 \<and> getTask st1 ''n3'' = Some tk1
           \<and> t_status tk1 = Pending \<and> t_retryCount tk1 = 1
           \<and> fail st1 1002 ''n3'' ''b'' = Inr st2 \<and> getTask st2 ''n3'' = Some tk2
           \<and> t_status tk2 = Pending \<and> t_retryCount tk2 = 2
           \<and> fail st2 1003 ''n3'' ''c'' = Inr st3 \<and> getTask st3 ''n3'' = Some tk3
           \<and> t_status tk3 = Pending \<and> t_retryCount tk3 = 3
           \<and> fail st3 1004 ''n3'' ''d'' = Inr st4 \<and> getTask st4 ''n3'' = Some tk4
           \<and> t_status tk4 = Failed \<and> kv st4 (''dlq:'' @ ''n3'') = Some e \<and> e_error e = ''d'')"
proof -
  have z: "d_maxRetries zero_retries = Some 0" by (simp add: zero_retries_def)
  have f: "''n3'' \<notin> r_id ` set (cf_agents_queues empty_storage)" by (simp add: empty_storage_def)
  from enqueue_explicit_zero_maxRetries_becomes_three[OF z f, where now = 1000
      and ?n1.0 = 1001 and ?e1.0 = "''a''" and ?n2.0 = 1002 and ?e2.0 = "''b''"
      and ?n3.0 = 1003 and ?e3.0 = "''c''" and ?n4.0 = 1004 and ?e4.0 = "''d''"] z f
  show ?thesis by blast
qed

section \<open>Pending tasks in priority order\<close>

lemma getPending_alt:
  "getPending st limit = map r_payload (take limit (sort_key order_key (pending_rows st)))"
  by (simp add: getPending_def pending_rows_def)

lemma length_getPending: "length (getPending st limit) \<le> limit"
  by (simp add: getPending_alt)

lemma getPending_status:
  assumes "consistent st" and "tk \<in> set (getPending st limit)"
  shows "t_status tk = Pending"
proof -
  from getPending_rows[OF assms(2)] obtain r where
    r: "r \<in> set (cf_agents_queues st)" "r_status r = Pending" "r_payload r = tk" by blast
  with consistentD[OF assms(1) r(1)] show ?thesis by (simp add: row_ok_def)
qed

lemma order_key_before:
  assumes "row_ok a" and "row_ok b" and "order_key a \<le> order_key b"
  shows "before (r_payload a) (r_payload b)"
  using assms by (auto simp: row_ok_def order_key_def before_def less_eq_prod_def)

lemma sorted_getPending:
  assumes c: "consistent st"
  shows "sorted_wrt before (getPending st limit)"
proof -
  let ?S = "sort_key order_key (pending_rows st)"
  have "sorted (map order_key ?S)" by (rule sorted_sort_key)
  then have s: "sorted_wrt (\<lambda>a b. order_key a \<le> order_key b) ?S"
    by (simp add: sorted_map)
  have ok: "row_ok r" if "r \<in> set ?S" for r
    using that consistentD[OF c] by (simp add: pending_rows_def)
  have "before (r_payload x) (r_payload y)"
    if "x \<in> set ?S" "y \<in> set ?S" "order_key x \<le> order_key y" for x y
    using order_key_before[OF ok[OF that(1)] ok[OF that(2)] that(3)] .
  from sorted_wrt_mono_rel[OF this s]
  have "sorted_wrt (\<lambda>a b. before (r_payload a) (r_payload b)) ?S" .
  then have "sorted_wrt (\<lambda>a b. before (r_payload a) (r_payload b)) (take limit ?S)"
    by (rule sorted_wrt_take)
  then show ?thesis by (simp add: getPending_alt sorted_wrt_map)
qed

lemma getPending_take:
  "getPending st limit = take limit (getPending st (length (cf_agents_queues st)))"
proof -
  have "length (sort_key order_key (pending_rows st)) \<le> length (cf_agents_queues st)"
    by (simp add: pending_rows_def)
  then show ?thesis by (simp add: getPending_alt take_map)
qed

lemma mset_getPending_all:
  "mset (getPending st (length (cf_agents_queues st))) = mset (map r_payload (pending_rows st))"
proof -
  have "length (sort_key order_key (pending_rows st)) \<le> length (cf_agents_queues st)"
    by (simp add: pending_rows_def)
  then show ?thesis by (simp add: getPending_alt)
qed

lemma pending_rows_append:
  "pending_rows (st\<lparr>cf_agents_queues := cf_agents_queues st @ rs\<rparr>)
     = pending_rows st @ filter (\<lambda>r. r_status r = Pending) rs"
  by (simp add: pending_rows_def)

lemma key_new: "order_key (row_of (new_task nid now d)) = (- d_priority d, now)"
  by (simp add: order_key_def row_of_def new_task_def)

lemma status_new: "r_status (row_of (new_task nid now d)) = Pending"
  by (simp add: row_of_def new_task_def)

lemma payload_new: "r_payload (row_of tk) = tk"
  by (simp add: row_of_def)

lemma id_new: "r_id (row_of (new_task nid now d)) = nid"
  by (simp add: row_of_def new_task_def)

lemma enqueue_two:
  assumes f1: "i1 \<notin> r_id ` set (cf_agents_queues st)" and f2: "i2 \<notin> r_id ` set (cf_agents_queues st)"
    and ne: "i1 \<noteq> i2"
  shows "\<exists>st1 st2. enqueue st i1 n1 d1 = Inr (new_task i1 n1 d1, st1)
           \<and> enqueue st1 i2 n2 d2 = Inr (new_task i2 n2 d2, st2)
           \<and> pending_rows st2 = pending_rows st @ [row_of (new_task i1 n1 d1), row_of (new_task i2 n2 d2)]"
proof -
  let ?st1 = "st\<lparr>cf_agents_queues := cf_agents_queues st @ [row_of (new_task i1 n1 d1)]\<rparr>"
  let ?st2 = "?st1\<lparr>cf_agents_queues := cf_agents_queues ?st1 @ [row_of (new_task i2 n2 d2)]\<rparr>"
  have e1: "enqueue st i1 n1 d1 = Inr (new_task i1 n1 d1, ?st1)" by (rule enqueue_fresh[OF f1])
  from f2 ne have "i2 \<notin> r_id ` set (cf_agents_queues ?st1)" by (simp add: id_new)
  then have e2: "enqueue ?st1 i2 n2 d2 = Inr (new_task i2 n2 d2, ?st2)" by (rule enqueue_fresh)
  have "pending_rows ?st2 = pending_rows st @ [row_of (new_task i1 n1 d1), row_of (new_task i2 n2 d2)]"
    by (simp add: pending_rows_def status_new)
  with e1 e2 show ?thesis by blast
qed

lemma getPending_two:
  assumes "pending_rows st = [a, b]" and "order_key a \<le> order_key b"
  shows "getPending st 1 = [r_payload a]" "getPending st 2 = [r_payload a, r_payload b]"
  using assms by (simp_all add: getPending_alt)

lemma getPending_two_swapped:
  assumes "pending_rows st = [b, a]" and "order_key a < order_key b"
  shows "getPending st 1 = [r_payload a]"
  using assms by (simp add: getPending_alt)

text \<open>
  C3. \<^verbatim>\<open>getPending\<close> returns at most \<open>limit\<close> tasks, all pending, ordered by priority
  descending and, at equal priority, by createdAt ascending; they are the first \<open>limit\<close>
  tasks of that ordering of all pending tasks. With no other pending task in the queue, for
  A (priority 9) and B (priority 3) enqueued in either order \<^verbatim>\<open>getPending(1)\<close> is [A], and
  for X and Y of equal priority enqueued X then Y (the clock not running backwards in
  between) \<^verbatim>\<open>getPending(2)\<close> is [X, Y].
\<close>

theorem getPending_priority_then_age:
  "(consistent st \<longrightarrow>
      length (getPending st limit) \<le> limit
      \<and> (\<forall>tk \<in> set (getPending st limit). t_status tk = Pending)
      \<and> sorted_wrt before (getPending st limit)
      \<and> getPending st limit = take limit (getPending st (length (cf_agents_queues st)))
      \<and> mset (getPending st (length (cf_agents_queues st))) = mset (map r_payload (pending_rows st)))
   \<and> (pending_rows st = [] \<and> ia \<notin> r_id ` set (cf_agents_queues st)
        \<and> ib \<notin> r_id ` set (cf_agents_queues st) \<and> ia \<noteq> ib
        \<and> d_priority da = 9 \<and> d_priority db = 3 \<longrightarrow>
        (\<exists>A B st1 st2. enqueue st ia ta da = Inr (A, st1) \<and> enqueue st1 ib tb db = Inr (B, st2)
            \<and> getPending st2 1 = [A])
        \<and> (\<exists>A B st1 st2. enqueue st ib tb db = Inr (B, st1) \<and> enqueue st1 ia ta da = Inr (A, st2)
            \<and> getPending st2 1 = [A]))
   \<and> (pending_rows st = [] \<and> ix \<notin> r_id ` set (cf_agents_queues st)
        \<and> iy \<notin> r_id ` set (cf_agents_queues st) \<and> ix \<noteq> iy
        \<and> d_priority dx = d_priority dy \<and> tx \<le> ty \<longrightarrow>
        (\<exists>X Y st1 st2. enqueue st ix tx dx = Inr (X, st1) \<and> enqueue st1 iy ty dy = Inr (Y, st2)
            \<and> getPending st2 2 = [X, Y]))"
proof (intro conjI impI)
  assume c: "consistent st"
  show "length (getPending st limit) \<le> limit" by (rule length_getPending)
  show "\<forall>tk \<in> set (getPending st limit). t_status tk = Pending"
    using getPending_status[OF c] by blast
  show "sorted_wrt before (getPending st limit)" by (rule sorted_getPending[OF c])
next
  show "getPending st limit = take limit (getPending st (length (cf_agents_queues st)))"
    by (rule getPending_take)
  show "mset (getPending st (length (cf_agents_queues st))) = mset (map r_payload (pending_rows st))"
    by (rule mset_getPending_all)
next
  assume a: "pending_rows st = [] \<and> ia \<notin> r_id ` set (cf_agents_queues st)
        \<and> ib \<notin> r_id ` set (cf_agents_queues st) \<and> ia \<noteq> ib
        \<and> d_priority da = 9 \<and> d_priority db = 3"
  let ?A = "new_task ia ta da" and ?B = "new_task ib tb db"
  have k: "order_key (row_of ?A) \<le> order_key (row_of ?B)" "order_key (row_of ?A) < order_key (row_of ?B)"
    using a by (simp_all add: key_new less_eq_prod_def less_prod_def)
  from a enqueue_two[of ia st ib ta da tb db] obtain st1 st2 where
    ab: "enqueue st ia ta da = Inr (?A, st1)" "enqueue st1 ib tb db = Inr (?B, st2)"
        "pending_rows st2 = [row_of ?A, row_of ?B]"
    by auto
  from getPending_two(1)[OF ab(3) k(1)] ab
  show "\<exists>A B st1 st2. enqueue st ia ta da = Inr (A, st1) \<and> enqueue st1 ib tb db = Inr (B, st2)
            \<and> getPending st2 1 = [A]"
    by (auto simp: payload_new)
  from a enqueue_two[of ib st ia tb db ta da] obtain st1' st2' where
    ba: "enqueue st ib tb db = Inr (?B, st1')" "enqueue st1' ia ta da = Inr (?A, st2')"
        "pending_rows st2' = [row_of ?B, row_of ?A]"
    by auto
  from getPending_two_swapped[OF ba(3) k(2)] ba
  show "\<exists>A B st1 st2. enqueue st ib tb db = Inr (B, st1) \<and> enqueue st1 ia ta da = Inr (A, st2)
            \<and> getPending st2 1 = [A]"
    by (auto simp: payload_new)
next
  assume a: "pending_rows st = [] \<and> ix \<notin> r_id ` set (cf_agents_queues st)
        \<and> iy \<notin> r_id ` set (cf_agents_queues st) \<and> ix \<noteq> iy
        \<and> d_priority dx = d_priority dy \<and> tx \<le> ty"
  let ?X = "new_task ix tx dx" and ?Y = "new_task iy ty dy"
  have k: "order_key (row_of ?X) \<le> order_key (row_of ?Y)"
    using a by (simp add: key_new less_eq_prod_def)
  from a enqueue_two[of ix st iy tx dx ty dy] obtain st1 st2 where
    xy: "enqueue st ix tx dx = Inr (?X, st1)" "enqueue st1 iy ty dy = Inr (?Y, st2)"
        "pending_rows st2 = [row_of ?X, row_of ?Y]"
    by auto
  from getPending_two(2)[OF xy(3) k] xy
  show "\<exists>X Y st1 st2. enqueue st ix tx dx = Inr (X, st1) \<and> enqueue st1 iy ty dy = Inr (Y, st2)
            \<and> getPending st2 2 = [X, Y]"
    by (auto simp: payload_new)
qed

theorem getPending_priority_then_age_witness:
  "consistent demo_storage
   \<and> length (getPending demo_storage 1) \<le> 1
   \<and> sorted_wrt before (getPending demo_storage 1)
   \<and> getPending demo_storage 1 = [demo_task]
   \<and> pending_rows empty_storage = []
   \<and> d_priority urgent = 9 \<and> d_priority minor = 3
   \<and> (\<exists>A B st1 st2. enqueue empty_storage ''b'' 10 minor = Inr (B, st1)
          \<and> enqueue st1 ''a'' 20 urgent = Inr (A, st2) \<and> getPending st2 1 = [A])
   \<and> (\<exists>X Y st1 st2. enqueue empty_storage ''x'' 10 minor = Inr (X, st1)
          \<and> enqueue st1 ''y'' 10 minor = Inr (Y, st2) \<and> getPending st2 2 = [X, Y])"
proof -
  have c: "consistent demo_storage"
    by (simp add: consistent_def row_ok_def demo_storage_def row_of_def demo_task_def new_task_def)
  have g: "getPending demo_storage 1 = [demo_task]"
    by (simp add: getPending_def demo_storage_def row_of_def demo_task_def new_task_def)
  have e: "pending_rows empty_storage = []" "cf_agents_queues empty_storage = []"
    by (simp_all add: pending_rows_def empty_storage_def)
  have p: "d_priority urgent = 9" "d_priority minor = 3"
    by (simp_all add: urgent_def minor_def)
  from getPending_priority_then_age[of demo_storage 1] c
  have 1: "length (getPending demo_storage 1) \<le> 1 \<and> sorted_wrt before (getPending demo_storage 1)"
    by blast
  from getPending_priority_then_age[where st = empty_storage and ia = "''a''" and ib = "''b''"
      and da = urgent and db = minor and ta = 20 and tb = 10] e p
  have 2: "\<exists>A B st1 st2. enqueue empty_storage ''b'' 10 minor = Inr (B, st1)
          \<and> enqueue st1 ''a'' 20 urgent = Inr (A, st2) \<and> getPending st2 1 = [A]"
    by simp
  from getPending_priority_then_age[where st = empty_storage and ix = "''x''" and iy = "''y''"
      and dx = minor and dy = minor and tx = 10 and ty = 10] e
  have 3: "\<exists>X Y st1 st2. enqueue empty_storage ''x'' 10 minor = Inr (X, st1)
          \<and> enqueue st1 ''y'' 10 minor = Inr (Y, st2) \<and> getPending st2 2 = [X, Y]"
    by simp
  from c g e p 1 2 3 show ?thesis by blast
qed

section \<open>Subagent allocation\<close>

lemma claim_idle_None: "claim_idle p t = None \<longleftrightarrow> no_idle p"
  by (induction p) (auto simp: no_idle_def Let_def split: option.splits if_splits)

lemma claim_idle_Some:
  assumes "claim_idle p t = Some (r, p')"
  shows "\<exists>pre k s post. p = pre @ (k, s) # post \<and> no_idle pre \<and> s_status s = Idle
           \<and> r = claimed s t \<and> p' = pre @ (k, r) # post"
  using assms
proof (induction p arbitrary: r p')
  case Nil
  then show ?case by simp
next
  case (Cons a p)
  obtain k s where a: "a = (k, s)" by (cases a)
  show ?case
  proof (cases "s_status s = Idle")
    case True
    with Cons.prems a have "r = claimed s t" "p' = (k, r) # p"
      by (auto simp: Let_def claimed_def)
    with True a have "a # p = [] @ (k, s) # p \<and> no_idle [] \<and> s_status s = Idle
           \<and> r = claimed s t \<and> p' = [] @ (k, r) # p"
      by (simp add: no_idle_def)
    then show ?thesis by blast
  next
    case False
    with Cons.prems a obtain rest' where c: "claim_idle p t = Some (r, rest')" and p': "p' = (k, s) # rest'"
      by (auto split: option.splits)
    from Cons.IH[OF c] obtain pre k0 s0 post where
      *: "p = pre @ (k0, s0) # post" "no_idle pre" "s_status s0 = Idle" "r = claimed s0 t"
         "rest' = pre @ (k0, r) # post"
      by blast
    with False a p' have "a # p = ((k, s) # pre) @ (k0, s0) # post \<and> no_idle ((k, s) # pre)
           \<and> s_status s0 = Idle \<and> r = claimed s0 t \<and> p' = ((k, s) # pre) @ (k0, r) # post"
      by (simp add: no_idle_def)
    then show ?thesis by blast
  qed
qed

lemma map_set_fresh: "k \<notin> fst ` set p \<Longrightarrow> map_set k v p = p @ [(k, v)]"
  by (induction p) auto

lemma allocate_at_capacity:
  assumes "no_idle p" and "\<not> length p < maxS"
  shows "allocate p maxS uuid now tk = Inl AtCapacity"
  using assms by (simp add: allocate_def claim_idle_None[THEN iffD2])

lemma allocate_creates:
  assumes "no_idle p" and "length p < maxS"
  shows "allocate p maxS uuid now tk = Inr (worker uuid now, map_set uuid (worker uuid now) p)"
  using assms by (simp add: allocate_def claim_idle_None[THEN iffD2] create_def worker_def Let_def)

lemma allocate_claims:
  assumes "\<not> no_idle p"
  shows "\<exists>pre k s post. p = pre @ (k, s) # post \<and> no_idle pre \<and> s_status s = Idle
           \<and> allocate p maxS uuid now tk
                = Inr (claimed s (t_id tk), pre @ (k, claimed s (t_id tk)) # post)"
proof -
  from assms obtain r p' where c: "claim_idle p (t_id tk) = Some (r, p')"
    using claim_idle_None[of p "t_id tk"] by (cases "claim_idle p (t_id tk)") auto
  from claim_idle_Some[OF c] c show ?thesis by (auto simp: allocate_def)
qed

lemma claim_idle_first:
  assumes "no_idle pre" and "s_status s = Idle"
  shows "claim_idle (pre @ (k, s) # post) t = Some (claimed s t, pre @ (k, claimed s t) # post)"
  using assms by (induction pre) (auto simp: no_idle_def claimed_def Let_def)

lemma release_split:
  assumes "map_get p k = Some s0"
  shows "\<exists>pre post. p = pre @ (k, s0) # post
           \<and> release p k = pre @ (k, s0\<lparr>s_status := Idle, s_currentTask := None\<rparr>) # post"
proof -
  have "\<exists>pre post. p = pre @ (k, s0) # post \<and> modify k f p = pre @ (k, f s0) # post" for f
    using assms
  proof (induction p)
    case Nil
    then show ?case by simp
  next
    case (Cons a p)
    obtain k' s where a: "a = (k', s)" by (cases a)
    show ?case
    proof (cases "k' = k")
      case True
      with Cons.prems a have "a # p = [] @ (k, s0) # p \<and> modify k f (a # p) = [] @ (k, f s0) # p"
        by simp
      then show ?thesis by blast
    next
      case False
      with Cons.prems a have "map_get p k = Some s0" by simp
      from Cons.IH[OF this] obtain pre post where
        "p = pre @ (k, s0) # post" "modify k f p = pre @ (k, f s0) # post" by blast
      with False a have "a # p = (a # pre) @ (k, s0) # post
          \<and> modify k f (a # p) = (a # pre) @ (k, f s0) # post"
        by simp
      then show ?thesis by blast
    qed
  qed
  with assms show ?thesis by (simp add: release_def)
qed

lemma no_idle_append: "no_idle (xs @ ys) = (no_idle xs \<and> no_idle ys)"
  by (simp add: no_idle_def)

lemma allocate_after_release:
  assumes n: "no_idle p" and g: "map_get p k = Some s0"
  shows "\<exists>sub p'. allocate (release p k) maxS uuid now tk = Inr (sub, p')
           \<and> s_id sub = s_id s0 \<and> s_status sub = Active \<and> s_currentTask sub = Some (t_id tk)
           \<and> length p' = length p"
proof -
  from release_split[OF g] obtain pre post where
    p: "p = pre @ (k, s0) # post"
    and r: "release p k = pre @ (k, s0\<lparr>s_status := Idle, s_currentTask := None\<rparr>) # post"
    by blast
  from n p have "no_idle pre" by (simp add: no_idle_append)
  from claim_idle_first[OF this, of "s0\<lparr>s_status := Idle, s_currentTask := None\<rparr>" k post "t_id tk"]
  show ?thesis unfolding r by (simp add: allocate_def claimed_def p)
qed

lemma no_idle_workers: "no_idle (map (\<lambda>j. (uuid j, worker (uuid j) (now j))) js)"
  by (induction js) (simp_all add: no_idle_def worker_def)

lemma allocate_many_fill:
  assumes "no_idle p" and "length p + length tks \<le> maxS"
    and "\<forall>j \<ge> k. uuid j \<notin> fst ` set p" and "inj uuid"
  shows "allocate_many p maxS uuid now k tks =
           (map (\<lambda>j. Inr (worker (uuid j) (now j))) [k..<k + length tks],
            p @ map (\<lambda>j. (uuid j, worker (uuid j) (now j))) [k..<k + length tks])"
  using assms
proof (induction tks arbitrary: p k)
  case Nil
  then show ?case by simp
next
  case (Cons tk tks)
  let ?w = "worker (uuid k) (now k)"
  let ?p1 = "p @ [(uuid k, ?w)]"
  from Cons.prems have lt: "length p < maxS" by simp
  from Cons.prems have "uuid k \<notin> fst ` set p" by simp
  with allocate_creates[OF Cons.prems(1) lt, of "uuid k" "now k" tk]
  have a: "allocate p maxS (uuid k) (now k) tk = Inr (?w, ?p1)"
    by (simp add: map_set_fresh)
  have n1: "no_idle ?p1" using Cons.prems(1) by (simp add: no_idle_def worker_def)
  have l1: "length ?p1 + length tks \<le> maxS" using Cons.prems(2) by simp
  have f1: "\<forall>j \<ge> Suc k. uuid j \<notin> fst ` set ?p1"
  proof (intro allI impI)
    fix j assume j: "Suc k \<le> j"
    with Cons.prems(3) have "uuid j \<notin> fst ` set p" by simp
    moreover from j Cons.prems(4) have "uuid j \<noteq> uuid k" by (auto dest: injD)
    ultimately show "uuid j \<notin> fst ` set ?p1" by simp
  qed
  have "k < Suc k + length tks" by simp
  from upt_conv_Cons[OF this]
  have "[k..<Suc k + length tks] = k # [Suc k..<Suc k + length tks]" .
  moreover have "k + length (tk # tks) = Suc k + length tks" by simp
  ultimately have u: "[k..<k + length (tk # tks)] = k # [Suc k..<Suc k + length tks]"
    by (simp only:)
  show ?case
    unfolding u using a Cons.IH[OF n1 l1 f1 Cons.prems(4)] by simp
qed

lemma allocate_result:
  assumes a: "allocate p maxS uuid now tk = Inr (sub, p')" and f: "uuid \<notin> fst ` set p"
  shows "(\<exists>pre k s post. p = pre @ (k, s) # post \<and> s_status s = Idle
             \<and> sub = claimed s (t_id tk) \<and> p' = pre @ (k, sub) # post)
         \<or> (no_idle p \<and> sub = worker uuid now \<and> p' = p @ [(uuid, sub)])"
proof (cases "no_idle p")
  case True
  with a have "length p < maxS"
    by (auto simp: allocate_def claim_idle_None[THEN iffD2] split: if_splits)
  from allocate_creates[OF True this, of uuid now tk] a f True show ?thesis
    by (simp add: map_set_fresh)
next
  case False
  from allocate_claims[OF False, of maxS uuid now tk] a show ?thesis by auto
qed

lemma inj_demo_uuid: "inj demo_uuid"
proof (rule injI)
  fix x y assume "demo_uuid x = demo_uuid y"
  then have "length (demo_uuid x) = length (demo_uuid y)" by simp
  then show "x = y" by (simp add: demo_uuid_def)
qed

text \<open>
  C5. With no idle subagent and the pool at (or above) maxSubagents, \<^verbatim>\<open>allocate\<close> throws and
  changes nothing. With an idle subagent it claims exactly one, the first in iteration
  order: status active, currentTask the task's id, every other entry untouched. With none
  idle and the pool below maxSubagents it creates a new active subagent and succeeds.
  From the empty pool with maxSubagents 50 and distinct UUIDs, 50 calls in a row succeed,
  the 51st throws, and after one release the next call succeeds by claiming the released
  subagent. The subagent that a call returns was idle before the call or did not exist:
  one that is busy is never handed to a second task.
\<close>

theorem allocate_claims_creates_or_fails:
  "(no_idle p \<and> maxS \<le> length p \<longrightarrow> allocate p maxS uuid now tk = Inl AtCapacity)
   \<and> (\<not> no_idle p \<longrightarrow>
        (\<exists>pre k s post. p = pre @ (k, s) # post \<and> no_idle pre \<and> s_status s = Idle
           \<and> allocate p maxS uuid now tk
                = Inr (s\<lparr>s_status := Active, s_currentTask := Some (t_id tk)\<rparr>,
                       pre @ (k, s\<lparr>s_status := Active, s_currentTask := Some (t_id tk)\<rparr>) # post)))
   \<and> (no_idle p \<and> length p < maxS \<longrightarrow>
        allocate p maxS uuid now tk = Inr (worker uuid now, map_set uuid (worker uuid now) p)
        \<and> s_status (worker uuid now) = Active
        \<and> (uuid \<notin> fst ` set p \<longrightarrow> map_set uuid (worker uuid now) p = p @ [(uuid, worker uuid now)]))
   \<and> (inj uuids \<and> length tks = 50 \<longrightarrow>
        allocate_many [] 50 uuids nows 0 tks
          = (map (\<lambda>j. Inr (worker (uuids j) (nows j))) [0..<50],
             map (\<lambda>j. (uuids j, worker (uuids j) (nows j))) [0..<50])
        \<and> allocate (map (\<lambda>j. (uuids j, worker (uuids j) (nows j))) [0..<50]) 50 uuid now tk
             = Inl AtCapacity
        \<and> (\<forall>k s0. map_get (map (\<lambda>j. (uuids j, worker (uuids j) (nows j))) [0..<50]) k = Some s0 \<longrightarrow>
              (\<exists>sub p'. allocate (release (map (\<lambda>j. (uuids j, worker (uuids j) (nows j))) [0..<50]) k)
                             50 uuid now tk = Inr (sub, p')
                  \<and> s_id sub = s_id s0 \<and> s_status sub = Active
                  \<and> s_currentTask sub = Some (t_id tk) \<and> length p' = 50)))
   \<and> (allocate p maxS uuid now tk = Inr (sub, p') \<and> uuid \<notin> fst ` set p \<longrightarrow>
        (\<exists>pre k s post. p = pre @ (k, s) # post \<and> s_status s = Idle
             \<and> sub = s\<lparr>s_status := Active, s_currentTask := Some (t_id tk)\<rparr>
             \<and> p' = pre @ (k, sub) # post)
        \<or> (no_idle p \<and> sub = worker uuid now \<and> p' = p @ [(uuid, sub)]))"
proof (intro conjI impI)
  assume "no_idle p \<and> maxS \<le> length p"
  then show "allocate p maxS uuid now tk = Inl AtCapacity"
    by (intro allocate_at_capacity) simp_all
next
  assume "\<not> no_idle p"
  from allocate_claims[OF this, of maxS uuid now tk]
  show "\<exists>pre k s post. p = pre @ (k, s) # post \<and> no_idle pre \<and> s_status s = Idle
           \<and> allocate p maxS uuid now tk
                = Inr (s\<lparr>s_status := Active, s_currentTask := Some (t_id tk)\<rparr>,
                       pre @ (k, s\<lparr>s_status := Active, s_currentTask := Some (t_id tk)\<rparr>) # post)"
    by (simp add: claimed_def)
next
  assume a: "no_idle p \<and> length p < maxS"
  then show "allocate p maxS uuid now tk = Inr (worker uuid now, map_set uuid (worker uuid now) p)"
    by (intro allocate_creates) simp_all
  show "s_status (worker uuid now) = Active" by (simp add: worker_def)
  assume "uuid \<notin> fst ` set p"
  then show "map_set uuid (worker uuid now) p = p @ [(uuid, worker uuid now)]"
    by (rule map_set_fresh)
next
  assume a: "inj uuids \<and> length tks = 50"
  let ?p50 = "map (\<lambda>j. (uuids j, worker (uuids j) (nows j))) [0..<50]"
  have n: "no_idle ?p50" by (rule no_idle_workers)
  from a allocate_many_fill[of "[]" tks 50 0 uuids nows]
  show "allocate_many [] 50 uuids nows 0 tks
          = (map (\<lambda>j. Inr (worker (uuids j) (nows j))) [0..<50], ?p50)"
    by (simp add: no_idle_def)
  show "allocate ?p50 50 uuid now tk = Inl AtCapacity"
    by (rule allocate_at_capacity[OF n]) simp
  show "\<forall>k s0. map_get ?p50 k = Some s0 \<longrightarrow>
              (\<exists>sub p'. allocate (release ?p50 k) 50 uuid now tk = Inr (sub, p')
                  \<and> s_id sub = s_id s0 \<and> s_status sub = Active
                  \<and> s_currentTask sub = Some (t_id tk) \<and> length p' = 50)"
  proof (intro allI impI)
    fix k s0 assume "map_get ?p50 k = Some s0"
    from allocate_after_release[OF n this, of 50 uuid now tk]
    show "\<exists>sub p'. allocate (release ?p50 k) 50 uuid now tk = Inr (sub, p')
                  \<and> s_id sub = s_id s0 \<and> s_status sub = Active
                  \<and> s_currentTask sub = Some (t_id tk) \<and> length p' = 50"
      by simp
  qed
next
  assume "allocate p maxS uuid now tk = Inr (sub, p') \<and> uuid \<notin> fst ` set p"
  then have "allocate p maxS uuid now tk = Inr (sub, p')" "uuid \<notin> fst ` set p" by simp_all
  from allocate_result[OF this]
  show "(\<exists>pre k s post. p = pre @ (k, s) # post \<and> s_status s = Idle
             \<and> sub = s\<lparr>s_status := Active, s_currentTask := Some (t_id tk)\<rparr>
             \<and> p' = pre @ (k, sub) # post)
        \<or> (no_idle p \<and> sub = worker uuid now \<and> p' = p @ [(uuid, sub)])"
    by (simp add: claimed_def)
qed

theorem allocate_claims_creates_or_fails_witness:
  "inj demo_uuid \<and> length (replicate 50 demo_task) = 50
   \<and> allocate_many [] 50 demo_uuid demo_now 0 (replicate 50 demo_task)
        = (map (\<lambda>j. Inr (worker (demo_uuid j) (demo_now j))) [0..<50],
           map (\<lambda>j. (demo_uuid j, worker (demo_uuid j) (demo_now j))) [0..<50])
   \<and> allocate (map (\<lambda>j. (demo_uuid j, worker (demo_uuid j) (demo_now j))) [0..<50]) 50
        (demo_uuid 50) (demo_now 50) demo_task = Inl AtCapacity
   \<and> (\<exists>sub p'. allocate (release (map (\<lambda>j. (demo_uuid j, worker (demo_uuid j) (demo_now j))) [0..<50])
                             (demo_uuid 0)) 50 (demo_uuid 51) (demo_now 51) demo_task = Inr (sub, p')
          \<and> s_id sub = demo_uuid 0 \<and> s_status sub = Active
          \<and> s_currentTask sub = Some ''t1'' \<and> length p' = 50)
   \<and> \<not> no_idle [(''s2'', busy_sub), (''s1'', idle_sub)]
   \<and> allocate [(''s2'', busy_sub), (''s1'', idle_sub)] 2 ''u9'' 7000 demo_task
        = Inr (idle_sub\<lparr>s_status := Active, s_currentTask := Some ''t1''\<rparr>,
               [(''s2'', busy_sub), (''s1'', idle_sub\<lparr>s_status := Active, s_currentTask := Some ''t1''\<rparr>)])
   \<and> no_idle [(''s2'', busy_sub)]
   \<and> allocate [(''s2'', busy_sub)] 1 ''u9'' 7000 demo_task = Inl AtCapacity"
proof -
  let ?p50 = "map (\<lambda>j. (demo_uuid j, worker (demo_uuid j) (demo_now j))) [0..<50]"
  have l: "length (replicate 50 demo_task) = 50" by simp
  have t: "t_id demo_task = ''t1''" by (simp add: demo_task_def new_task_def)
  have "(0::nat) < 50" by simp
  from upt_conv_Cons[OF this] have "[0..<50] = 0 # [Suc 0..<50]" .
  then have g: "map_get ?p50 (demo_uuid 0) = Some (worker (demo_uuid 0) (demo_now 0))"
    by simp
  note th = allocate_claims_creates_or_fails[where uuids = demo_uuid and nows = demo_now
      and tks = "replicate 50 demo_task" and tk = demo_task]
  from th[where uuid = "demo_uuid 50" and now = "demo_now 50"] inj_demo_uuid l
  have 1: "allocate_many [] 50 demo_uuid demo_now 0 (replicate 50 demo_task)
        = (map (\<lambda>j. Inr (worker (demo_uuid j) (demo_now j))) [0..<50], ?p50)"
    and 2: "allocate ?p50 50 (demo_uuid 50) (demo_now 50) demo_task = Inl AtCapacity"
    by blast+
  from th[where uuid = "demo_uuid 51" and now = "demo_now 51"] inj_demo_uuid l g
  have "\<exists>sub p'. allocate (release ?p50 (demo_uuid 0)) 50 (demo_uuid 51) (demo_now 51) demo_task = Inr (sub, p')
          \<and> s_id sub = s_id (worker (demo_uuid 0) (demo_now 0)) \<and> s_status sub = Active
          \<and> s_currentTask sub = Some (t_id demo_task) \<and> length p' = 50"
    by blast
  then have 3: "\<exists>sub p'. allocate (release ?p50 (demo_uuid 0)) 50 (demo_uuid 51) (demo_now 51) demo_task = Inr (sub, p')
          \<and> s_id sub = demo_uuid 0 \<and> s_status sub = Active
          \<and> s_currentTask sub = Some ''t1'' \<and> length p' = 50"
    by (simp add: t worker_def)
  have 4: "\<not> no_idle [(''s2'', busy_sub), (''s1'', idle_sub)]" "no_idle [(''s2'', busy_sub)]"
    by (simp_all add: no_idle_def busy_sub_def idle_sub_def)
  have 5: "allocate [(''s2'', busy_sub), (''s1'', idle_sub)] 2 ''u9'' 7000 demo_task
        = Inr (idle_sub\<lparr>s_status := Active, s_currentTask := Some ''t1''\<rparr>,
               [(''s2'', busy_sub), (''s1'', idle_sub\<lparr>s_status := Active, s_currentTask := Some ''t1''\<rparr>)])"
    by (simp add: allocate_def busy_sub_def idle_sub_def t Let_def)
  from allocate_claims_creates_or_fails[of "[(''s2'', busy_sub)]" 1 "''u9''" 7000 demo_task] 4
  have 6: "allocate [(''s2'', busy_sub)] 1 ''u9'' 7000 demo_task = Inl AtCapacity"
    by simp
  from inj_demo_uuid l 1 2 3 4 5 6 show ?thesis by blast
qed

section \<open>Subagent health\<close>

lemma map_get_healthCheck:
  "map_get (healthCheck p now) k
     = map_option (\<lambda>s. if stale now s then s\<lparr>s_status := Error\<rparr> else s) (map_get p k)"
  by (induction p) (auto simp: healthCheck_def stale_def timeout_def)

lemma keys_healthCheck: "map fst (healthCheck p now) = map fst p"
  by (induction p) (auto simp: healthCheck_def)

lemma map_get_modify:
  "map_get (modify k f p) j = (if j = k then map_option f (map_get p k) else map_get p j)"
  by (induction p) auto

lemma keys_modify: "map fst (modify k f p) = map fst p"
  by (induction p) auto

lemma map_get_heartbeat:
  "map_get (heartbeat p t k) j
     = (if j = k
        then map_option (\<lambda>s. if s_status s = Error
                               then s\<lparr>s_lastHeartbeat := t, s_status := Active\<rparr>
                               else s\<lparr>s_lastHeartbeat := t\<rparr>) (map_get p k)
        else map_get p j)"
  by (cases "map_get p k") (auto simp: heartbeat_def map_get_modify Let_def)

lemma keys_heartbeat: "map fst (heartbeat p t k) = map fst p"
  by (cases "map_get p k") (simp_all add: heartbeat_def keys_modify)

text \<open>
  C6, as stated, fails: an idle subagent whose last heartbeat is older than five minutes is
  marked error by \<^verbatim>\<open>healthCheck\<close>.
\<close>

theorem healthCheck_marks_idle_counterexample:
  "s_status stale_idle = Idle \<and> 400000 - s_lastHeartbeat stale_idle > 5 * 60 * 1000
   \<and> healthCheck [(''s1'', stale_idle)] 400000 = [(''s1'', stale_idle\<lparr>s_status := Error\<rparr>)]
   \<and> s_status (stale_idle\<lparr>s_status := Error\<rparr>) = Error"
  by (simp add: healthCheck_def stale_idle_def timeout_def)

text \<open>
  C6, amended. \<^verbatim>\<open>healthCheck\<close> sets a subagent's status to error exactly when
  now - lastHeartbeat exceeds the five-minute timeout, whatever its status (idle included);
  it changes nothing else, and a subagent within the timeout is left as it is. A later
  \<^verbatim>\<open>heartbeat\<close> on an errored subagent sets lastHeartbeat to the current time and restores
  the status active, keeping its currentTask and leaving every other subagent and the set of
  subagents unchanged.
\<close>

theorem healthCheck_marks_every_stale_subagent:
  "(map_get p k = Some s \<longrightarrow>
      map_get (healthCheck p now) k
        = Some (if now - s_lastHeartbeat s > 5 * 60 * 1000 then s\<lparr>s_status := Error\<rparr> else s))
   \<and> map fst (healthCheck p now) = map fst p
   \<and> (map_get p k = Some s \<and> s_status s = Error \<longrightarrow>
        map_get (heartbeat p t k) k = Some (s\<lparr>s_lastHeartbeat := t, s_status := Active\<rparr>))
   \<and> map fst (heartbeat p t k) = map fst p
   \<and> (j \<noteq> k \<longrightarrow> map_get (heartbeat p t k) j = map_get p j)
   \<and> (map_get p k = Some s \<and> now - s_lastHeartbeat s > 5 * 60 * 1000 \<longrightarrow>
        map_get (heartbeat (healthCheck p now) t k) k
          = Some (s\<lparr>s_lastHeartbeat := t, s_status := Active\<rparr>))"
proof (intro conjI impI)
  assume "map_get p k = Some s"
  then show "map_get (healthCheck p now) k
        = Some (if now - s_lastHeartbeat s > 5 * 60 * 1000 then s\<lparr>s_status := Error\<rparr> else s)"
    by (simp add: map_get_healthCheck stale_def)
next
  show "map fst (healthCheck p now) = map fst p" by (rule keys_healthCheck)
next
  assume "map_get p k = Some s \<and> s_status s = Error"
  then show "map_get (heartbeat p t k) k = Some (s\<lparr>s_lastHeartbeat := t, s_status := Active\<rparr>)"
    by (simp add: map_get_heartbeat)
next
  show "map fst (heartbeat p t k) = map fst p" by (rule keys_heartbeat)
next
  assume "j \<noteq> k"
  then show "map_get (heartbeat p t k) j = map_get p j" by (simp add: map_get_heartbeat)
next
  assume "map_get p k = Some s \<and> now - s_lastHeartbeat s > 5 * 60 * 1000"
  then show "map_get (heartbeat (healthCheck p now) t k) k
          = Some (s\<lparr>s_lastHeartbeat := t, s_status := Active\<rparr>)"
    by (simp add: map_get_heartbeat map_get_healthCheck stale_def)
qed

theorem healthCheck_marks_every_stale_subagent_witness:
  "map_get [(''s1'', stale_idle), (''s2'', stale_busy)] ''s2'' = Some stale_busy
   \<and> 400000 - s_lastHeartbeat stale_busy > 5 * 60 * 1000
   \<and> map_get (healthCheck [(''s1'', stale_idle), (''s2'', stale_busy)] 400000) ''s2''
        = Some (stale_busy\<lparr>s_status := Error\<rparr>)
   \<and> map_get (heartbeat (healthCheck [(''s1'', stale_idle), (''s2'', stale_busy)] 400000) 400100 ''s2'') ''s2''
        = Some (stale_busy\<lparr>s_lastHeartbeat := 400100, s_status := Active\<rparr>)
   \<and> map_get (healthCheck [(''s1'', stale_idle), (''s2'', stale_busy)] 400000) ''s1''
        = Some (stale_idle\<lparr>s_status := Error\<rparr>)
   \<and> map_get (healthCheck [(''s1'', stale_idle), (''s2'', stale_busy)] 200000) ''s2''
        = Some stale_busy"
proof -
  let ?p = "[(''s1'', stale_idle), (''s2'', stale_busy)]"
  have g: "map_get ?p ''s2'' = Some stale_busy" "map_get ?p ''s1'' = Some stale_idle" by simp_all
  have o: "400000 - s_lastHeartbeat stale_busy > 5 * 60 * 1000"
    "400000 - s_lastHeartbeat stale_idle > 5 * 60 * 1000"
    "\<not> 200000 - s_lastHeartbeat stale_busy > 5 * 60 * 1000"
    by (simp_all add: stale_busy_def stale_idle_def)
  from healthCheck_marks_every_stale_subagent[of ?p "''s2''" stale_busy 400000 400100]
       healthCheck_marks_every_stale_subagent[of ?p "''s1''" stale_idle 400000 400100]
       healthCheck_marks_every_stale_subagent[of ?p "''s2''" stale_busy 200000 400100]
       g o
  show ?thesis by simp
qed

section \<open>Scheduler tick and command execution\<close>


lemma canProcessTask_frame:
  assumes "a_tasksActive ag1 = a_tasksActive ag" and "a_config ag1 = a_config ag"
  shows "canProcessTask ag1 tk' = canProcessTask ag tk"
  using assms by (simp add: canProcessTask_def)





lemmas demo_tasks = taskA_def taskB_def taskC_def dependent_def new_task_def command_data_def
  or_default_def row_of_def


lemma getPending_idle_agent: "getPending (a_storage idle_agent) 2 = [dependent, taskA]"
  by (simp add: getPending_def idle_agent_def demo_tasks order_key_def less_eq_prod_def)






text \<open>
  C7 on the code. The queue holds the pending task \<open>taskA\<close> and a pending task that depends
  on it. With nothing active, the tick passes both through \<^verbatim>\<open>canProcessTask\<close>, allocates a
  subagent for the dependent task and hands it to \<^verbatim>\<open>executeTask\<close> first, although
  \<^verbatim>\<open>areDependenciesSatisfied\<close> is false for it.
\<close>

theorem tick_dispatches_task_with_incomplete_dependency:
  "t_dependencies dependent = Some [''a'']
   \<and> map_option t_status (getTask (a_storage idle_agent) ''a'') = Some Pending
   \<and> \<not> areDependenciesSatisfied (a_storage idle_agent) dependent
   \<and> tr_dispatched (processAutonomousTasks idle_agent demo_uuid demo_now)
        = [(dependent, Subagent (worker (demo_uuid 0) (demo_now 0))), (taskA, Direct)]"
proof -
  have d: "t_dependencies dependent = Some [''a'']" by (simp add: demo_tasks)
  have g: "getTask (a_storage idle_agent) ''a'' = Some taskA" "t_status taskA = Pending"
    by (simp_all add: getTask_def idle_agent_def demo_tasks)
  have n: "\<not> areDependenciesSatisfied (a_storage idle_agent) dependent"
    by (simp add: areDependenciesSatisfied_def d g)
  have c: "canProcessTask ag tk" if "a_tasksActive ag = 0" "a_config ag = a_config idle_agent" for ag tk
    using that by (simp add: canProcessTask_def idle_agent_def)
  let ?w = "worker (demo_uuid 0) (demo_now 0)"
  let ?ag1 = "idle_agent\<lparr>a_pool := [(demo_uuid 0, ?w)]\<rparr>"
  have "allocate [] 50 (demo_uuid 0) (demo_now 0) dependent = Inr (?w, [(demo_uuid 0, ?w)])"
    using allocate_creates[of "[]" 50 "demo_uuid 0" "demo_now 0" dependent]
    by (simp add: no_idle_def)
  then have a1: "allocateResources idle_agent (demo_uuid 0) (demo_now 0) dependent = Inr (Subagent ?w, ?ag1)"
    by (simp add: allocateResources_def idle_agent_def demo_tasks)
  have a2: "allocateResources ?ag1 u n taskA = Inr (Direct, ?ag1)" for u n
    by (simp add: allocateResources_def demo_tasks)
  have c0: "canProcessTask idle_agent dependent" by (rule c) (simp_all add: idle_agent_def)
  have c1: "canProcessTask ?ag1 taskA" by (rule c) (simp_all add: idle_agent_def)
  have m: "maxConcurrentTasks (a_config idle_agent) = 2" by (simp add: idle_agent_def)
  have "tr_dispatched (processAutonomousTasks idle_agent demo_uuid demo_now)
        = [(dependent, Subagent ?w), (taskA, Direct)]"
    by (simp add: processAutonomousTasks_def m getPending_idle_agent c0 c1 a1 a2 executeTask_def)
  with d g n show ?thesis by simp
qed

lemma start_command_result:
  assumes "getTask st (t_id tk) = Some tk0"
  shows "\<exists>st1 tk1. start_command st now tk = Inr st1 \<and> getTask st1 (t_id tk) = Some tk1
           \<and> t_status tk1 = In_progress \<and> t_retryCount tk1 = t_retryCount tk0
           \<and> t_maxRetries tk1 = t_maxRetries tk0 \<and> t_id tk1 = t_id tk0"
proof -
  let ?tk1 = "updated_task tk0 now In_progress None"
  let ?st1 = "st\<lparr>cf_agents_queues := sql_update (cf_agents_queues st) (t_id tk) ?tk1 In_progress\<rparr>"
  from assms have "start_command st now tk = Inr ?st1"
    by (simp add: start_command_def updateStatus_eq)
  moreover have "getTask ?st1 (t_id tk) = Some ?tk1" by (rule getTask_sql_update[OF assms])
  ultimately show ?thesis by simp
qed

lemma executeCommand_analyze_throws:
  assumes "start_command st now tk = Inr st1" and "x_analyze x (t_payload tk) = Inl m"
  shows "executeCommand st now later tk x = fail st1 later (t_id tk) m"
  using assms by (simp add: executeCommand_def)

lemma executeCommand_handler_throws:
  assumes "start_command st now tk = Inr st1" and "x_analyze x (t_payload tk) = Inr dec"
    and "x_handler x dec = Inl m"
  shows "executeCommand st now later tk x = fail st1 later (t_id tk) m"
  using assms by (simp add: executeCommand_def)

lemma executeCommand_send_throws:
  assumes "start_command st now tk = Inr st1" and "x_analyze x (t_payload tk) = Inr dec"
    and "x_handler x dec = Inr res" and "complete st1 later (t_id tk) res = Inr st2"
    and "x_send x = Some m"
  shows "executeCommand st now later tk x = fail st2 later (t_id tk) m"
  using assms by (simp add: executeCommand_def)

text \<open>
  C4, as stated, fails: when the decision engine throws, \<^verbatim>\<open>executeCommand\<close> calls \<^verbatim>\<open>fail\<close>.
  A task with retryCount 0 and maxRetries 2 comes back with retryCount 1, and a task that
  has used its retries becomes failed and is dead-lettered.
\<close>

theorem oracle_failure_consumes_retry_counterexample:
  "x_analyze oracle_down (t_payload demo_task) = Inl ''oracle unavailable''
   \<and> t_retryCount demo_task = 0
   \<and> (\<exists>st' tk'. executeCommand demo_storage 1100 1200 demo_task oracle_down = Inr st'
         \<and> getTask st' ''t1'' = Some tk' \<and> t_retryCount tk' = 1)
   \<and> getTask spent_storage ''t1'' = Some spent_task \<and> t_status spent_task = Pending
   \<and> (\<exists>st' tk' e. executeCommand spent_storage 1100 1200 spent_task oracle_down = Inr st'
         \<and> getTask st' ''t1'' = Some tk' \<and> t_status tk' = Failed
         \<and> kv st' ''dlq:t1'' = Some e \<and> e_error e = ''oracle unavailable'')"
  by (simp add: executeCommand_def start_command_def updateStatus_def fail_def getTask_def
        sql_update_def moveToDLQ_def assign_def oracle_down_def demo_storage_def demo_task_def
        spent_storage_def spent_task_def new_task_def command_data_def or_default_def
        row_of_def Let_def)

text \<open>
  C4, amended. \<^verbatim>\<open>executeCommand\<close> first marks the stored task in_progress. When the decision
  engine then throws, the task goes through \<^verbatim>\<open>fail\<close> with the exception's message, exactly
  as when a category handler throws (and as for any other exception of the \<^verbatim>\<open>try\<close> block,
  such as a failing send after completion): while retryCount is below maxRetries the task
  returns to pending with retryCount increased by 1, otherwise it becomes failed and a
  dead-letter entry with the message is written.
\<close>

theorem executeCommand_fails_task_on_every_exception:
  assumes "getTask st (t_id tk) = Some tk0"
  shows "\<exists>st1 tk1. start_command st now tk = Inr st1 \<and> getTask st1 (t_id tk) = Some tk1
           \<and> t_status tk1 = In_progress
           \<and> (x_analyze x (t_payload tk) = Inl m \<longrightarrow>
                executeCommand st now later tk x = fail st1 later (t_id tk) m)
           \<and> (\<forall>dec. x_analyze x (t_payload tk) = Inr dec \<and> x_handler x dec = Inl m \<longrightarrow>
                executeCommand st now later tk x = fail st1 later (t_id tk) m)
           \<and> (\<forall>dec res st2. x_analyze x (t_payload tk) = Inr dec \<and> x_handler x dec = Inr res
                  \<and> complete st1 later (t_id tk) res = Inr st2 \<and> x_send x = Some m \<longrightarrow>
                executeCommand st now later tk x = fail st2 later (t_id tk) m)
           \<and> (x_analyze x (t_payload tk) = Inl m \<and> t_retryCount tk0 < t_maxRetries tk0 \<longrightarrow>
                (\<exists>st' tk'. executeCommand st now later tk x = Inr st'
                    \<and> getTask st' (t_id tk) = Some tk' \<and> t_status tk' = Pending
                    \<and> t_retryCount tk' = t_retryCount tk0 + 1))
           \<and> (x_analyze x (t_payload tk) = Inl m \<and> \<not> t_retryCount tk0 < t_maxRetries tk0 \<longrightarrow>
                (\<exists>st' tk' e. executeCommand st now later tk x = Inr st'
                    \<and> getTask st' (t_id tk) = Some tk' \<and> t_status tk' = Failed
                    \<and> kv st' (''dlq:'' @ t_id tk0) = Some e \<and> e_error e = m))"
proof -
  from start_command_result[OF assms, of now] obtain st1 tk1 where
    s: "start_command st now tk = Inr st1" and g: "getTask st1 (t_id tk) = Some tk1"
    and f: "t_status tk1 = In_progress" "t_retryCount tk1 = t_retryCount tk0"
       "t_maxRetries tk1 = t_maxRetries tk0" "t_id tk1 = t_id tk0"
    by blast
  have 1: "x_analyze x (t_payload tk) = Inl m \<longrightarrow>
             executeCommand st now later tk x = fail st1 later (t_id tk) m"
    using executeCommand_analyze_throws[OF s] by blast
  have 2: "\<forall>dec. x_analyze x (t_payload tk) = Inr dec \<and> x_handler x dec = Inl m \<longrightarrow>
             executeCommand st now later tk x = fail st1 later (t_id tk) m"
    using executeCommand_handler_throws[OF s] by blast
  have 3: "\<forall>dec res st2. x_analyze x (t_payload tk) = Inr dec \<and> x_handler x dec = Inr res
                  \<and> complete st1 later (t_id tk) res = Inr st2 \<and> x_send x = Some m \<longrightarrow>
                executeCommand st now later tk x = fail st2 later (t_id tk) m"
    using executeCommand_send_throws[OF s] by blast
  have 4: "\<exists>st' tk'. executeCommand st now later tk x = Inr st'
                    \<and> getTask st' (t_id tk) = Some tk' \<and> t_status tk' = Pending
                    \<and> t_retryCount tk' = t_retryCount tk0 + 1"
    if "x_analyze x (t_payload tk) = Inl m" "t_retryCount tk0 < t_maxRetries tk0"
  proof -
    from that f have "t_retryCount tk1 < t_maxRetries tk1" by simp
    from fail_retry_step[OF g this, of later m] f
      executeCommand_analyze_throws[OF s that(1), of later]
    show ?thesis by auto
  qed
  have 5: "\<exists>st' tk' e. executeCommand st now later tk x = Inr st'
                    \<and> getTask st' (t_id tk) = Some tk' \<and> t_status tk' = Failed
                    \<and> kv st' (''dlq:'' @ t_id tk0) = Some e \<and> e_error e = m"
    if "x_analyze x (t_payload tk) = Inl m" "\<not> t_retryCount tk0 < t_maxRetries tk0"
  proof -
    from that f have "\<not> t_retryCount tk1 < t_maxRetries tk1" by simp
    from fail_terminal_step[OF g this, of later m] f
      executeCommand_analyze_throws[OF s that(1), of later]
    show ?thesis by auto
  qed
  from s g f 1 2 3 4 5 show ?thesis by blast
qed

theorem executeCommand_fails_task_on_every_exception_witness:
  "getTask demo_storage (t_id demo_task) = Some demo_task
   \<and> x_analyze oracle_down (t_payload demo_task) = Inl ''oracle unavailable''
   \<and> t_retryCount demo_task < t_maxRetries demo_task
   \<and> (\<exists>st' tk'. executeCommand demo_storage 1100 1200 demo_task oracle_down = Inr st'
          \<and> getTask st' (t_id demo_task) = Some tk' \<and> t_status tk' = Pending
          \<and> t_retryCount tk' = t_retryCount demo_task + 1)"
proof -
  have g: "getTask demo_storage (t_id demo_task) = Some demo_task"
    by (simp add: getTask_def demo_storage_def row_of_def demo_task_def new_task_def)
  have a: "x_analyze oracle_down (t_payload demo_task) = Inl ''oracle unavailable''"
    by (simp add: oracle_down_def)
  have r: "t_retryCount demo_task < t_maxRetries demo_task"
    by (simp add: demo_task_def new_task_def)
  from executeCommand_fails_task_on_every_exception[OF g, of 1100 oracle_down
      "''oracle unavailable''" 1200] a r
  have "\<exists>st' tk'. executeCommand demo_storage 1100 1200 demo_task oracle_down = Inr st'
          \<and> getTask st' (t_id demo_task) = Some tk' \<and> t_status tk' = Pending
          \<and> t_retryCount tk' = t_retryCount demo_task + 1"
    by blast
  with g a r show ?thesis by blast
qed


end
